theory Spec2Isabelle
  imports Main "HOL-Library.Word" "HOL-Library.Sublist"
begin

section \<open>JavaScript strings\<close>

text \<open>
  A JavaScript string is a sequence of UTF-16 code units, and \<open>length\<close>, \<open>includes\<close>,
  \<open>startsWith\<close>, \<open>split\<close>, \<open>slice\<close> and the regular expressions of the client (none has the
  \<open>u\<close> flag) all work on code units. A string is therefore a list of 16-bit words; \<open>js\<close>
  turns an ASCII literal into one.
\<close>

type_synonym jstring = "16 word list"

definition js :: "string \<Rightarrow> jstring" where
  "js s = map of_char s"

text \<open>
  The signs in the client's template literals and patterns that are not ASCII, as the code
  units that the source files hold for them. \<open>use-message-handler.ts\<close> and
  \<open>main-layout.tsx\<close> hold different code units for the place of one sign, so each file has
  its own constants, and every handler is modelled with the literal of its own file. First
  those of \<open>use-message-handler.ts\<close>: before \<open>Conclusion\<close> and \<open>Summary\<close>, before
  \<open>Next Step\<close>, before \<open>Query Result\<close>, in the \<open>analyzing\<close> indicator, before
  \<open>Visualization\<close> and in the \<open>checking_graph\<close> indicator, before \<open>Result\<close>, and in the
  warning of a confirmation.
\<close>

definition emoji_bulb :: jstring where "emoji_bulb = [0xF8FF, 0x00FC, 0x00ED, 0x00B0]"
definition emoji_thought :: jstring where "emoji_thought = [0xF8FF, 0x00FC, 0x00ED, 0x2260]"
definition emoji_clipboard :: jstring where "emoji_clipboard = [0xF8FF, 0x00FC, 0x00EC, 0x00E3]"
definition emoji_brain :: jstring where "emoji_brain = [0xF8FF, 0x00FC, 0x00DF, 0x2020]"
definition emoji_chart :: jstring where "emoji_chart = [0xF8FF, 0x00FC, 0x00EC, 0x00E4]"
definition emoji_check :: jstring where "emoji_check = [0x201A, 0x00FA, 0x00D6]"
definition emoji_warning :: jstring where "emoji_warning = [0x201A, 0x00F6, 0x2020, 0x00D4, 0x220F, 0x00E8]"

text \<open>
  Those of \<open>main-layout.tsx\<close>: before \<open>Summary\<close>, before \<open>Next Step\<close>, before
  \<open>Query Result\<close>, before \<open>Result\<close>, before \<open>Error\<close>, and in the pattern for the warning of
  a confirmation.
\<close>

definition layout_bulb :: jstring where "layout_bulb = [0x00F0, 0x0178, 0x2019, 0x00A1]"
definition layout_thought :: jstring where "layout_thought = [0x00F0, 0x0178, 0x2019, 0x00AD]"
definition layout_clipboard :: jstring where "layout_clipboard = [0x00F0, 0x0178, 0x201C, 0x2039]"
definition layout_check :: jstring where "layout_check = [0x00E2, 0x0153, 0x2026]"
definition layout_cross :: jstring where "layout_cross = [0x00E2, 0x0152]"
definition layout_warning :: jstring where "layout_warning = [0x00E2, 0x0161, 0x00A0, 0x00EF, 0x00B8]"

text \<open>\<open>s.startsWith(p)\<close> and \<open>s.includes(t)\<close>.\<close>

definition str_startsWith :: "jstring \<Rightarrow> jstring \<Rightarrow> bool" where
  "str_startsWith s p = prefix p s"

definition str_includes :: "jstring \<Rightarrow> jstring \<Rightarrow> bool" where
  "str_includes s t = sublist t s"

text \<open>
  \<open>s.trim()\<close> removes white space and line terminators (ECMAScript \<open>WhiteSpace\<close> and
  \<open>LineTerminator\<close>) from both ends.
\<close>

definition isWhiteSpace :: "16 word \<Rightarrow> bool" where
  "isWhiteSpace c \<longleftrightarrow>
     c \<in> {0x09, 0x0A, 0x0B, 0x0C, 0x0D, 0x20, 0xA0, 0x1680, 0x2028, 0x2029, 0x202F, 0x205F,
          0x3000, 0xFEFF}
     \<or> (0x2000 \<le> c \<and> c \<le> 0x200A)"

definition str_trim :: "jstring \<Rightarrow> jstring" where
  "str_trim s = rev (dropWhile isWhiteSpace (rev (dropWhile isWhiteSpace s)))"

text \<open>\<open>s.split("\n")\<close>: the pieces between line feeds; never an empty list.\<close>

fun str_split :: "jstring \<Rightarrow> jstring list" where
  "str_split [] = [[]]"
| "str_split (c # cs) =
     (if c = 0x0A then [] # str_split cs
      else (case str_split cs of [] \<Rightarrow> [[c]] | l # ls \<Rightarrow> (c # l) # ls))"

section \<open>Messages and the state of the chat hook\<close>

text \<open>
  \<open>use-message-handler.ts\<close>: the interfaces \<open>Attachment\<close>, \<open>Message\<close> and
  \<open>PendingOperation\<close>, and the state that \<open>useMessageHandler\<close> and \<open>MainLayout\<close> hold.
\<close>

record attachment =
  url :: jstring
  filename :: jstring
  file_type :: jstring
  att_size :: nat

datatype role = User | Assistant

record message =
  msg_id :: jstring
  role :: role
  content :: jstring
  timestamp :: jstring
  model :: "jstring option"
  attachments :: "attachment list option"

record pending_operation =
  operation :: jstring
  sql :: jstring
  explanation :: jstring
  op_model :: jstring

text \<open>
  The requests the confirmation round sends: the plain agent request carrying the text
  \<open>Cancel\<close>, and the confirm-and-execute request of \<open>confirmAgentOperationStream\<close>.
\<close>

datatype request =
    Post_agent jstring
  | Post_agent_confirm jstring jstring jstring bool

text \<open>
  \<open>abortControllerRef\<close> holds the controller of the stream in flight (\<open>None\<close> is
  \<open>null\<close>); controllers are numbered, and \<open>abortedSignals\<close> lists those whose
  \<open>abort()\<close> has been called, so that a read loop still holding a signal sees it
  aborted after the reference has been cleared. \<open>controllersCreated\<close> numbers the next
  controller, and \<open>requests\<close> records what the confirmation round sent.
\<close>

record session =
  messages :: "message list"
  conversationId :: "nat option"
  isLoading :: bool
  isLoadingChat :: bool
  currentStatus :: jstring
  pendingOperation :: "pending_operation option"
  abortControllerRef :: "nat option"
  abortedSignals :: "nat list"
  controllersCreated :: nat
  localStatus :: jstring
  isStreaming :: bool
  requests :: "request list"

definition signal_aborted :: "nat \<Rightarrow> session \<Rightarrow> bool" where
  "signal_aborted c s \<longleftrightarrow> c \<in> set (abortedSignals s)"


section \<open>Stopping a generation\<close>

text \<open>
  \<open>handleStopGeneration\<close>: with a controller in the reference, abort it, clear the
  reference and the loading flag; with none, do nothing.
\<close>

definition handleStopGeneration :: "session \<Rightarrow> session" where
  "handleStopGeneration s =
     (case abortControllerRef s of
        None \<Rightarrow> s
      | Some c \<Rightarrow> s\<lparr>abortedSignals := c # abortedSignals s,
                     abortControllerRef := None,
                     isLoading := False\<rparr>)"

section \<open>Events\<close>

text \<open>
  The value of \<open>JSON.parse\<close>. A number keeps its literal text: the client only ever
  passes parsed values on to \<open>JSON.stringify\<close>.
\<close>

datatype json =
    JNull
  | JBool bool
  | JNum jstring
  | JStr jstring
  | JArr "json list"
  | JObj "(jstring \<times> json) list"

text \<open>
  The payload of \<open>sql_result\<close>: every field may be missing, and the handlers test
  \<open>typeof result.success\<close>, \<open>typeof result.row_count\<close> and the truth of
  \<open>result.data\<close>. \<open>data\<close>, when present, is an array of rows.
\<close>

record sql_result =
  success :: "bool option"
  row_count :: "int option"
  data :: "json list option"
  res_message :: "jstring option"
  res_error :: "jstring option"

record confirmation =
  conf_operation :: jstring
  conf_sql :: jstring
  conf_message :: jstring

text \<open>
  One constructor for each \<open>data.type\<close> that some handler tests, with \<open>data.content\<close>
  (for \<open>done\<close>, \<open>data.conversation_id\<close>) as its argument; \<open>Other\<close> is any other type.
  The payload of \<open>sql_result\<close> may be \<open>null\<close>.
\<close>

datatype event =
    Ai_response jstring
  | Sql_query jstring
  | Step_indicator jstring
  | Brief_reasoning jstring
  | Loading jstring
  | Sql_result "sql_result option"
  | Analyzing jstring
  | Final_answer_chunk jstring
  | Final_answer_complete jstring
  | Final_answer jstring
  | Checking_graph jstring
  | Chart_config json
  | Graph_decision
  | Confirmation_required confirmation
  | Cancelled
  | Done "nat option"
  | Other jstring

datatype exn = SyntaxError | InvalidCharacterError | NetworkError | AbortError

text \<open>A call either returns or throws; what it did to the state before throwing stays.\<close>

datatype 's outcome = Ok 's | Thrown exn 's

fun state_of :: "'s outcome \<Rightarrow> 's" where
  "state_of (Ok s) = s"
| "state_of (Thrown e s) = s"

section \<open>Rendering numbers\<close>

text \<open>
  A template literal renders an integer in decimal and a missing value as
  \<open>undefined\<close>.
\<close>

fun show_nat :: "nat \<Rightarrow> jstring" where
  "show_nat n = (if n < 10 then [0x30 + of_nat n] else show_nat (n div 10) @ [0x30 + of_nat (n mod 10)])"

definition show_int :: "int \<Rightarrow> jstring" where
  "show_int i = (if i < 0 then js ''-'' @ show_nat (nat (- i)) else show_nat (nat i))"

definition show_count :: "int option \<Rightarrow> jstring" where
  "show_count c = (case c of None \<Rightarrow> js ''undefined'' | Some i \<Rightarrow> show_int i)"

section \<open>The stream of one request\<close>

text \<open>
  The variables that the callback of \<open>handleSendMessage\<close> closes over, and what is fixed
  for one call: the id of the streaming message, the model, whether a selected table is
  named \<open>general\<close>, the \<open>conversationId\<close> the callback captured, and the runtime's
  \<open>JSON.stringify(_, null, 2)\<close>.
\<close>

record stream_vars =
  aiResponse :: jstring
  accumulatedContent :: jstring
  finalAnswer :: jstring

record stream_config =
  streamingMessageId :: jstring
  selectedModel :: jstring
  isGeneralMode :: bool
  sentConversationId :: "nat option"
  stringify :: "json \<Rightarrow> jstring"

type_synonym stream_state = "stream_vars \<times> session"

definition initial_vars :: stream_vars where
  "initial_vars = \<lparr>aiResponse = [], accumulatedContent = [], finalAnswer = []\<rparr>"

text \<open>
  The guarded update that every handler repeats: copy the list, and when its last message
  passes the test, replace that message's content.
\<close>

definition update_last :: "(message \<Rightarrow> bool) \<Rightarrow> (jstring \<Rightarrow> jstring) \<Rightarrow> message list \<Rightarrow> message list" where
  "update_last guard f ms =
     (if ms \<noteq> [] \<and> guard (last ms) then butlast ms @ [(last ms)\<lparr>content := f (content (last ms))\<rparr>]
      else ms)"

definition is_streaming :: "stream_config \<Rightarrow> message \<Rightarrow> bool" where
  "is_streaming cfg m \<longleftrightarrow> msg_id m = streamingMessageId cfg"

definition new_assistant :: "stream_config \<Rightarrow> jstring \<Rightarrow> jstring \<Rightarrow> message" where
  "new_assistant cfg now c =
     \<lparr>msg_id = streamingMessageId cfg, role = Assistant, content = c, timestamp = now,
      model = Some (selectedModel cfg), attachments = None\<rparr>"

text \<open>\<open>!conversationId\<close>: \<open>null\<close> and \<open>0\<close> are false.\<close>

definition no_conversation :: "nat option \<Rightarrow> bool" where
  "no_conversation c \<longleftrightarrow> c = None \<or> c = Some 0"

section \<open>Ask mode\<close>

text \<open>\<open>buildContent\<close> of the ask branch.\<close>

definition buildContent_ask :: "stream_config \<Rightarrow> stream_vars \<Rightarrow> jstring" where
  "buildContent_ask cfg v =
     (let content = accumulatedContent v in
      if finalAnswer v \<noteq> [] then
        (let hasSqlExecution = str_includes (accumulatedContent v) (js ''**Executed SQL Query:**'');
             hasAtSymbol = str_includes content (js ''@'')
         in if isGeneralMode cfg \<or> \<not> hasSqlExecution \<or> \<not> hasAtSymbol then
              (if str_trim content \<noteq> [] then content @ js ''\<newline>\<newline>'' @ finalAnswer v
               else finalAnswer v)
            else content @ js ''\<newline>\<newline>---\<newline>\<newline>**'' @ emoji_bulb
                   @ js '' Conclusion:**\<newline>'' @ finalAnswer v)
      else content)"

definition sql_query_block_ask :: "jstring \<Rightarrow> jstring" where
  "sql_query_block_ask q =
     js ''\<newline>\<newline>**Executed SQL Query:**\<newline>```sql\<newline>'' @ q @ js ''\<newline>```\<newline>''"

definition step_block :: "jstring \<Rightarrow> jstring" where
  "step_block t = js ''\<newline>\<newline>---\<newline>\<newline>### '' @ t @ js ''\<newline>''"

definition reasoning_block :: "jstring \<Rightarrow> jstring" where
  "reasoning_block t =
     js ''\<newline>\<newline>---\<newline>\<newline>'' @ emoji_thought @ js '' **Next Step:** '' @ t
       @ js ''\<newline>\<newline>''"

text \<open>The two appends of a row-returning result: the count line, then the rows.\<close>

definition query_result_block :: "(json \<Rightarrow> jstring) \<Rightarrow> sql_result \<Rightarrow> jstring" where
  "query_result_block str r =
     js ''\<newline>**'' @ emoji_clipboard @ js '' Query Result:** ('' @ show_count (row_count r)
       @ js '' row'' @ (if row_count r \<noteq> Some 1 then js ''s'' else []) @ js '' returned)\<newline>\<newline>''
       @ js ''<details open>\<newline><summary>Results</summary>\<newline>\<newline>```json\<newline>''
       @ (case data r of None \<Rightarrow> js ''undefined'' | Some rows \<Rightarrow> str (JArr rows))
       @ js ''\<newline>```\<newline></details>\<newline>''"

definition chart_block :: "(json \<Rightarrow> jstring) \<Rightarrow> json \<Rightarrow> jstring" where
  "chart_block str c =
     js ''\<newline>\<newline>**'' @ emoji_chart @ js '' Visualization:**\<newline>```chart\<newline>'' @ str c
       @ js ''\<newline>```\<newline>''"

definition refresh_ask :: "stream_config \<Rightarrow> stream_state \<Rightarrow> stream_state" where
  "refresh_ask cfg st =
     (case st of (v, s) \<Rightarrow>
        (v, s\<lparr>messages := update_last (is_streaming cfg) (\<lambda>_. buildContent_ask cfg v) (messages s)\<rparr>))"

text \<open>
  The callback that \<open>handleSendMessage\<close> gives \<open>sendAskQueryStream\<close>; \<open>now\<close> is the
  formatted time of the call. A type with no branch changes nothing.
\<close>

fun ask_event :: "stream_config \<Rightarrow> jstring \<Rightarrow> event \<Rightarrow> stream_state \<Rightarrow> stream_state" where
  "ask_event cfg now (Ai_response c) (v, s) =
     (let v' = v\<lparr>aiResponse := c\<rparr>
      in (v', s\<lparr>messages := messages s @ [new_assistant cfg now (buildContent_ask cfg v')]\<rparr>))"
| "ask_event cfg now (Sql_query c) (v, s) =
     refresh_ask cfg (v\<lparr>accumulatedContent := accumulatedContent v @ sql_query_block_ask c\<rparr>, s)"
| "ask_event cfg now (Step_indicator c) (v, s) =
     refresh_ask cfg (v\<lparr>accumulatedContent := accumulatedContent v @ step_block c\<rparr>, s)"
| "ask_event cfg now (Brief_reasoning c) (v, s) =
     refresh_ask cfg (v\<lparr>accumulatedContent := accumulatedContent v @ reasoning_block c\<rparr>, s)"
| "ask_event cfg now (Loading c) (v, s) =
     (v, s\<lparr>currentStatus := (if c \<noteq> [] then c else js ''Processing...'')\<rparr>)"
| "ask_event cfg now (Sql_result result) (v, s) =
     refresh_ask cfg
       (case result of
          None \<Rightarrow> (v, s)
        | Some r \<Rightarrow>
            if success r = Some True
            then (v\<lparr>accumulatedContent := accumulatedContent v @ query_result_block (stringify cfg) r\<rparr>, s)
            else (v, s))"
| "ask_event cfg now (Analyzing c) (v, s) =
     (v, s\<lparr>messages := update_last (is_streaming cfg)
                 (\<lambda>_. buildContent_ask cfg v @ js ''\<newline>\<newline>> '' @ emoji_brain @ js '' '' @ c)
                 (messages s)\<rparr>)"
| "ask_event cfg now (Final_answer_chunk c) (v, s) =
     refresh_ask cfg (v\<lparr>finalAnswer := finalAnswer v @ c\<rparr>,
                      s\<lparr>currentStatus := js ''AI is generating conclusion...''\<rparr>)"
| "ask_event cfg now (Final_answer_complete c) (v, s) =
     refresh_ask cfg (v\<lparr>finalAnswer := c\<rparr>, s)"
| "ask_event cfg now (Final_answer c) (v, s) =
     (let v' = v\<lparr>finalAnswer := c\<rparr>
      in if messages s \<noteq> [] \<and> is_streaming cfg (last (messages s)) then refresh_ask cfg (v', s)
         else (v', s\<lparr>messages := messages s @ [new_assistant cfg now (buildContent_ask cfg v')]\<rparr>))"
| "ask_event cfg now (Checking_graph c) (v, s) =
     (v, s\<lparr>messages := update_last (is_streaming cfg)
                 (\<lambda>_. buildContent_ask cfg v @ js ''\<newline>\<newline>> '' @ emoji_chart @ js '' '' @ c)
                 (messages s)\<rparr>)"
| "ask_event cfg now (Chart_config c) (v, s) =
     refresh_ask cfg (v\<lparr>accumulatedContent := accumulatedContent v @ chart_block (stringify cfg) c\<rparr>,
                      s\<lparr>currentStatus := js ''AI is generating visualization...''\<rparr>)"
| "ask_event cfg now Graph_decision (v, s) = refresh_ask cfg (v, s)"
| "ask_event cfg now (Done cid) (v, s) =
     (v, if no_conversation (sentConversationId cfg)
         then s\<lparr>currentStatus := [], conversationId := cid\<rparr>
         else s\<lparr>currentStatus := []\<rparr>)"
| "ask_event cfg now (Confirmation_required c) (v, s) = (v, s)"
| "ask_event cfg now Cancelled (v, s) = (v, s)"
| "ask_event cfg now (Other t) (v, s) = (v, s)"

section \<open>Base64 and the confirmation directive\<close>

text \<open>
  \<open>btoa\<close> encodes a string whose code units are all below 256, three at a time, and
  throws \<open>InvalidCharacterError\<close> (here \<open>None\<close>) on any other string.
\<close>

definition b64_alphabet :: jstring where
  "b64_alphabet = js ''ABCDEFGHIJKLMNOPQRSTUVWXYZabcdefghijklmnopqrstuvwxyz0123456789+/''"

definition b64_char :: "nat \<Rightarrow> 16 word" where
  "b64_char n = b64_alphabet ! (n mod 64)"

fun b64_encode :: "nat list \<Rightarrow> jstring" where
  "b64_encode (a # b # c # r) =
     [b64_char (a div 4), b64_char ((a mod 4) * 16 + b div 16),
      b64_char ((b mod 16) * 4 + c div 64), b64_char (c mod 64)] @ b64_encode r"
| "b64_encode [a, b] =
     [b64_char (a div 4), b64_char ((a mod 4) * 16 + b div 16), b64_char ((b mod 16) * 4), 0x3D]"
| "b64_encode [a] = [b64_char (a div 4), b64_char ((a mod 4) * 16), 0x3D, 0x3D]"
| "b64_encode [] = []"

definition btoa :: "jstring \<Rightarrow> jstring option" where
  "btoa s = (if \<forall>c \<in> set s. c \<le> 0xFF then Some (b64_encode (map unat s)) else None)"

text \<open>
  The text that \<open>confirmation_required\<close> appends: the explanation, the SQL, the warning,
  and the \<open>confirmation\<close> tag that the renderer turns into the two buttons.
\<close>

definition warning_text :: jstring where
  "warning_text =
     js ''**'' @ emoji_warning @ js '' This operation will modify your data. Please confirm:**''"

definition confirmation_tag :: "jstring \<Rightarrow> jstring \<Rightarrow> jstring \<Rightarrow> jstring \<Rightarrow> jstring" where
  "confirmation_tag opn sql64 msg64 mdl =
     js ''<confirmation operation=\"'' @ opn @ js ''\" sql=\"'' @ sql64 @ js ''\" message=\"'' @ msg64
       @ js ''\" model=\"'' @ mdl @ js ''\" />''"

definition confirmationContent :: "jstring \<Rightarrow> confirmation \<Rightarrow> jstring \<Rightarrow> jstring \<Rightarrow> jstring" where
  "confirmationContent mdl c sql64 msg64 =
     conf_message c @ js ''\<newline>\<newline>**SQL to Execute:**\<newline>```sql\<newline>'' @ conf_sql c
       @ js ''\<newline>```\<newline>\<newline>'' @ warning_text @ js ''\<newline>\<newline>''
       @ confirmation_tag (conf_operation c) sql64 msg64 mdl"

text \<open>
  \<^verbatim>\<open>.replace(/\n\n<confirmation[^>]+\/>/g, "")\<close>. After the literal, \<^verbatim>\<open>[^>]+\<close>
  takes one or more code units other than \<^verbatim>\<open>>\<close>, and \<^verbatim>\<open>/>\<close> must follow. As
  \<^verbatim>\<open>/\<close> is itself not \<^verbatim>\<open>>\<close>, the \<^verbatim>\<open>>\<close> that closes a match is the first
  one after the literal, and there is a match exactly when the code units between the
  literal and it are at least two and end in \<^verbatim>\<open>/\<close>.
  \<open>match_tag\<close> gives the length of the match at the start of its argument.
\<close>

definition tag_open :: jstring where
  "tag_open = js ''\<newline>\<newline><confirmation''"

definition match_tag :: "jstring \<Rightarrow> nat option" where
  "match_tag s =
     (if prefix tag_open s then
        (let rest = drop (length tag_open) s;
             run = takeWhile (\<lambda>c. c \<noteq> 0x3E) rest
         in if 2 \<le> length run \<and> last run = 0x2F \<and> length run < length rest
            then Some (length tag_open + length run + 1) else None)
      else None)"

text \<open>A global replace scans from the left and resumes after each match.\<close>

fun strip_tags :: "jstring \<Rightarrow> jstring" where
  "strip_tags [] = []"
| "strip_tags (c # cs) =
     (case match_tag (c # cs) of
        Some n \<Rightarrow> strip_tags (drop (n - 1) cs)
      | None \<Rightarrow> c # strip_tags cs)"

text \<open>
  The second replacement removes every occurrence of its pattern's text \<open>w\<close> (the pattern
  is a warning text, escaped, followed by \<^verbatim>\<open>\n*\<close>) together with the line feeds that
  follow it.
\<close>

function strip_warning :: "jstring \<Rightarrow> jstring \<Rightarrow> jstring" where
  "strip_warning w [] = []"
| "strip_warning w (c # cs) =
     (if prefix w (c # cs)
      then strip_warning w (dropWhile (\<lambda>x. x = 0x0A) (drop (length w - 1) cs))
      else c # strip_warning w cs)"
  by pat_completeness auto
termination
proof (relation "measure (\<lambda>(w, s). length s)", goal_cases)
  case 1
  show ?case by simp
next
  case (2 w c cs)
  have "length (dropWhile (\<lambda>x. x = 0x0A) (drop (length w - 1) cs))
          \<le> length (drop (length w - 1) cs)"
    by (rule length_dropWhile_le)
  also have "\<dots> \<le> length cs"
    by simp
  finally show ?case
    by simp
next
  case (3 w c cs)
  show ?case by simp
qed

text \<open>
  The three replacements of a directive, each \<open>replace(tag).replace(warning).trim()\<close>. The
  \<open>cancelled\<close> handler of \<open>use-message-handler.ts\<close> has in its pattern the warning text that
  \<open>confirmation_required\<close> writes. The two of \<open>onConfirmAction\<close> in \<open>main-layout.tsx\<close>
  have the text with that file's code units for the sign.
\<close>

definition layout_warning_text :: jstring where
  "layout_warning_text =
     js ''**'' @ layout_warning @ js '' This operation will modify your data. Please confirm:**''"

definition remove_confirmation :: "jstring \<Rightarrow> jstring \<Rightarrow> jstring" where
  "remove_confirmation w c = str_trim (strip_warning w (strip_tags c))"

definition is_assistant :: "message \<Rightarrow> bool" where
  "is_assistant m \<longleftrightarrow> role m = Assistant"

section \<open>Agent mode\<close>

text \<open>\<open>buildContent\<close> of the agent branch.\<close>

definition buildContent_agent :: "stream_config \<Rightarrow> stream_vars \<Rightarrow> jstring" where
  "buildContent_agent cfg v =
     (let content = accumulatedContent v in
      if finalAnswer v \<noteq> [] then
        (let hasAtSymbol = str_includes content (js ''@'')
         in if isGeneralMode cfg \<or> \<not> hasAtSymbol then
              (if str_trim content \<noteq> [] then content @ js ''\<newline>\<newline>'' @ finalAnswer v
               else finalAnswer v)
            else content @ js ''\<newline>\<newline>---\<newline>\<newline>**'' @ emoji_bulb
                   @ js '' Summary:**\<newline>'' @ finalAnswer v)
      else content)"

definition sql_query_block_agent :: "jstring \<Rightarrow> jstring" where
  "sql_query_block_agent q =
     js ''\<newline>\<newline>**Executed SQL:**\<newline>```sql\<newline>'' @ q @ js ''\<newline>```\<newline>''"

text \<open>\<open>result.message || `${result.row_count} row(s) affected`\<close>: an empty message is false.\<close>

definition mutation_result_line :: "sql_result \<Rightarrow> jstring" where
  "mutation_result_line r =
     js ''\<newline>**'' @ emoji_check @ js '' Result:** ''
       @ (case res_message r of
            Some m \<Rightarrow> if m \<noteq> [] then m else show_count (row_count r) @ js '' row(s) affected''
          | None \<Rightarrow> show_count (row_count r) @ js '' row(s) affected'')"

definition refresh_agent :: "stream_config \<Rightarrow> stream_state \<Rightarrow> stream_state" where
  "refresh_agent cfg st =
     (case st of (v, s) \<Rightarrow>
        (v, s\<lparr>messages := update_last (is_streaming cfg) (\<lambda>_. buildContent_agent cfg v) (messages s)\<rparr>))"

text \<open>
  The callback that \<open>handleSendMessage\<close> gives \<open>sendAgentQueryStream\<close>. Only
  \<open>confirmation_required\<close> can throw, in \<open>btoa\<close>, after it has stored the pending
  operation.
\<close>

fun agent_event :: "stream_config \<Rightarrow> jstring \<Rightarrow> event \<Rightarrow> stream_state \<Rightarrow> stream_state outcome" where
  "agent_event cfg now (Ai_response c) (v, s) =
     (let v' = v\<lparr>aiResponse := c\<rparr>
      in Ok (v', s\<lparr>messages := messages s @ [new_assistant cfg now (buildContent_agent cfg v')]\<rparr>))"
| "agent_event cfg now (Sql_query c) (v, s) =
     Ok (refresh_agent cfg (v\<lparr>accumulatedContent := accumulatedContent v @ sql_query_block_agent c\<rparr>, s))"
| "agent_event cfg now (Sql_result result) (v, s) =
     Ok (refresh_agent cfg
       (case result of
          None \<Rightarrow> (v, s)
        | Some r \<Rightarrow>
            if success r = Some True then
              (case data r of
                 Some (row # rows) \<Rightarrow>
                   (v\<lparr>accumulatedContent := accumulatedContent v @ query_result_block (stringify cfg) r\<rparr>, s)
               | _ \<Rightarrow> (v\<lparr>accumulatedContent := accumulatedContent v @ mutation_result_line r\<rparr>, s))
            else (v, s)))"
| "agent_event cfg now (Step_indicator c) (v, s) =
     Ok (refresh_agent cfg (v\<lparr>accumulatedContent := accumulatedContent v @ step_block c\<rparr>, s))"
| "agent_event cfg now (Brief_reasoning c) (v, s) =
     Ok (refresh_agent cfg (v\<lparr>accumulatedContent := accumulatedContent v @ reasoning_block c\<rparr>, s))"
| "agent_event cfg now (Chart_config c) (v, s) =
     Ok (refresh_agent cfg
       (v\<lparr>accumulatedContent := accumulatedContent v @ chart_block (stringify cfg) c\<rparr>,
        s\<lparr>currentStatus := js ''AI is generating visualization...''\<rparr>))"
| "agent_event cfg now (Final_answer_chunk c) (v, s) =
     Ok (refresh_agent cfg (v\<lparr>finalAnswer := finalAnswer v @ c\<rparr>,
                           s\<lparr>currentStatus := js ''AI is generating conclusion...''\<rparr>))"
| "agent_event cfg now (Final_answer_complete c) (v, s) =
     Ok (refresh_agent cfg (v\<lparr>finalAnswer := c\<rparr>, s))"
| "agent_event cfg now (Final_answer c) (v, s) =
     (let v' = v\<lparr>finalAnswer := c\<rparr>
      in if messages s \<noteq> [] \<and> is_streaming cfg (last (messages s)) then Ok (refresh_agent cfg (v', s))
         else Ok (v', s\<lparr>messages := messages s @ [new_assistant cfg now (buildContent_agent cfg v')]\<rparr>))"
| "agent_event cfg now (Confirmation_required c) (v, s) =
     (let s' = s\<lparr>pendingOperation :=
                   Some \<lparr>operation = conf_operation c, sql = conf_sql c,
                         explanation = conf_message c, op_model = selectedModel cfg\<rparr>\<rparr>
      in case btoa (conf_sql c) of
           None \<Rightarrow> Thrown InvalidCharacterError (v, s')
         | Some sql64 \<Rightarrow>
             (case btoa (conf_message c) of
                None \<Rightarrow> Thrown InvalidCharacterError (v, s')
              | Some msg64 \<Rightarrow>
                  (let cc = confirmationContent (selectedModel cfg) c sql64 msg64
                   in if messages s' \<noteq> [] \<and> is_streaming cfg (last (messages s'))
                      then Ok (v, s'\<lparr>messages := update_last (is_streaming cfg)
                                        (\<lambda>_. buildContent_agent cfg v @ js ''\<newline>\<newline>'' @ cc)
                                        (messages s')\<rparr>)
                      else Ok (v, s'\<lparr>messages := messages s' @ [new_assistant cfg now cc]\<rparr>))))"
| "agent_event cfg now Cancelled (v, s) =
     Ok (v, s\<lparr>messages := update_last is_assistant (remove_confirmation warning_text) (messages s)\<rparr>)"
| "agent_event cfg now (Loading c) (v, s) = Ok (v, s\<lparr>currentStatus := c\<rparr>)"
| "agent_event cfg now (Done cid) (v, s) =
     Ok (v, if no_conversation (sentConversationId cfg)
            then s\<lparr>currentStatus := [], conversationId := cid\<rparr>
            else s\<lparr>currentStatus := []\<rparr>)"
| "agent_event cfg now (Analyzing c) (v, s) = Ok (v, s)"
| "agent_event cfg now (Checking_graph c) (v, s) = Ok (v, s)"
| "agent_event cfg now Graph_decision (v, s) = Ok (v, s)"
| "agent_event cfg now (Other t) (v, s) = Ok (v, s)"

text \<open>
  The parts of the directive, for stating what a rejection removes: the text that
  \<open>confirmationContent\<close> puts before the warning; with it, everything that the handler of
  \<open>confirmation_required\<close> puts before the warning, which is the composed content and a
  blank line when the streaming message exists already; and the attributes of the tag,
  between its name and its closing \<^verbatim>\<open>/>\<close>.
\<close>

definition confirmation_intro :: "confirmation \<Rightarrow> jstring" where
  "confirmation_intro c =
     conf_message c @ js ''\<newline>\<newline>**SQL to Execute:**\<newline>```sql\<newline>'' @ conf_sql c
       @ js ''\<newline>```\<newline>\<newline>''"

definition directive_context :: "stream_config \<Rightarrow> stream_state \<Rightarrow> confirmation \<Rightarrow> jstring" where
  "directive_context cfg st c =
     (if messages (snd st) \<noteq> [] \<and> is_streaming cfg (last (messages (snd st)))
      then buildContent_agent cfg (fst st) @ js ''\<newline>\<newline>'' else [])
     @ confirmation_intro c"

definition tag_attributes :: "jstring \<Rightarrow> jstring \<Rightarrow> jstring \<Rightarrow> jstring \<Rightarrow> jstring" where
  "tag_attributes opn sql64 msg64 mdl =
     js '' operation=\"'' @ opn @ js ''\" sql=\"'' @ sql64 @ js ''\" message=\"'' @ msg64
       @ js ''\" model=\"'' @ mdl @ js ''\" ''"

section \<open>The runtime's JSON.parse\<close>

text \<open>
  \<open>JSON.parse\<close> is the runtime's; it is written out here after the JSON grammar, so
  that the decoder can be run on concrete lines. \<open>None\<close> stands for the
  \<open>SyntaxError\<close> it throws. White space is space, tab, line feed and carriage return.
\<close>

definition json_ws :: "16 word \<Rightarrow> bool" where
  "json_ws c \<longleftrightarrow> c = 0x20 \<or> c = 0x09 \<or> c = 0x0A \<or> c = 0x0D"

definition skip_ws :: "jstring \<Rightarrow> jstring" where
  "skip_ws s = dropWhile json_ws s"

definition is_digit :: "16 word \<Rightarrow> bool" where
  "is_digit c \<longleftrightarrow> 0x30 \<le> c \<and> c \<le> 0x39"

definition is_hex :: "16 word \<Rightarrow> bool" where
  "is_hex c \<longleftrightarrow> is_digit c \<or> (0x41 \<le> c \<and> c \<le> 0x46) \<or> (0x61 \<le> c \<and> c \<le> 0x66)"

definition hex_value :: "16 word \<Rightarrow> 16 word" where
  "hex_value c = (if is_digit c then c - 0x30 else if c \<le> 0x46 then c - 0x37 else c - 0x57)"

definition hex4 :: "jstring \<Rightarrow> 16 word" where
  "hex4 s = foldl (\<lambda>a c. a * 16 + hex_value c) 0 (take 4 s)"

definition unescape :: "16 word \<Rightarrow> 16 word option" where
  "unescape e =
     (if e = 0x22 \<or> e = 0x5C \<or> e = 0x2F then Some e
      else if e = 0x62 then Some 0x08
      else if e = 0x66 then Some 0x0C
      else if e = 0x6E then Some 0x0A
      else if e = 0x72 then Some 0x0D
      else if e = 0x74 then Some 0x09
      else None)"

text \<open>
  A string after its opening quote: up to the closing quote, with the escapes decoded; a
  control character, a bad escape or a missing quote is an error. The result is the string
  and the text after it.
\<close>

fun parse_string :: "jstring \<Rightarrow> (jstring \<times> jstring) option" where
  "parse_string [] = None"
| "parse_string (c # cs) =
     (if c = 0x22 then Some ([], cs)
      else if c = 0x5C then
        (case cs of
           [] \<Rightarrow> None
         | e # r \<Rightarrow>
             if e = 0x75 then
               (if 4 \<le> length r \<and> list_all is_hex (take 4 r)
                then map_option (\<lambda>(x, rest). (hex4 r # x, rest)) (parse_string (drop 4 r))
                else None)
             else
               (case unescape e of
                  None \<Rightarrow> None
                | Some u \<Rightarrow> map_option (\<lambda>(x, rest). (u # x, rest)) (parse_string r)))
      else if c < 0x20 then None
      else map_option (\<lambda>(x, rest). (c # x, rest)) (parse_string cs))"

text \<open>
  A number: an optional minus, digits without a leading zero, an optional fraction and an
  optional exponent. Its literal text is kept.
\<close>

definition take_digits :: "jstring \<Rightarrow> jstring \<times> jstring" where
  "take_digits s = (takeWhile is_digit s, dropWhile is_digit s)"

definition parse_fraction :: "jstring \<Rightarrow> (jstring \<times> jstring) option" where
  "parse_fraction s =
     (case s of
        [] \<Rightarrow> Some ([], s)
      | c # r \<Rightarrow>
          if c = 0x2E then
            (case take_digits r of (fp, rest) \<Rightarrow> if fp = [] then None else Some (c # fp, rest))
          else Some ([], s))"

definition parse_exponent :: "jstring \<Rightarrow> (jstring \<times> jstring) option" where
  "parse_exponent s =
     (case s of
        [] \<Rightarrow> Some ([], s)
      | c # r \<Rightarrow>
          if c = 0x65 \<or> c = 0x45 then
            (case (case r of
                     [] \<Rightarrow> ([], r)
                   | d # r' \<Rightarrow> if d = 0x2B \<or> d = 0x2D then ([d], r') else ([], r)) of
               (sg, r1) \<Rightarrow>
                 (case take_digits r1 of
                    (ep, rest) \<Rightarrow> if ep = [] then None else Some (c # sg @ ep, rest)))
          else Some ([], s))"

definition parse_number :: "jstring \<Rightarrow> (jstring \<times> jstring) option" where
  "parse_number s =
     (case (case s of [] \<Rightarrow> ([], s) | c # r \<Rightarrow> if c = 0x2D then ([c], r) else ([], s)) of
        (sg, s1) \<Rightarrow>
          (case take_digits s1 of
             (ip, s2) \<Rightarrow>
               if ip = [] \<or> (hd ip = 0x30 \<and> 1 < length ip) then None
               else
                 (case parse_fraction s2 of
                    None \<Rightarrow> None
                  | Some (fp, s3) \<Rightarrow>
                      (case parse_exponent s3 of
                         None \<Rightarrow> None
                       | Some (ep, s4) \<Rightarrow> Some (sg @ ip @ fp @ ep, s4)))))"

text \<open>
  Values, the elements of an array after its bracket, and the members of an object after
  its brace. The first argument bounds the depth of the recursion; a value consumes a code
  unit before it descends, and \<open>parse_elements\<close> hands the same text on to
  \<open>parse_value\<close> once, so twice the length of the text, plus one, is never reached.
\<close>

fun parse_value :: "nat \<Rightarrow> jstring \<Rightarrow> (json \<times> jstring) option"
  and parse_elements :: "nat \<Rightarrow> jstring \<Rightarrow> (json list \<times> jstring) option"
  and parse_members :: "nat \<Rightarrow> jstring \<Rightarrow> ((jstring \<times> json) list \<times> jstring) option" where
  "parse_value 0 s = None"
| "parse_value (Suc n) s =
     (case s of
        [] \<Rightarrow> None
      | c # cs \<Rightarrow>
          if c = 0x7B then
            (case skip_ws cs of
               [] \<Rightarrow> None
             | d # r \<Rightarrow>
                 if d = 0x7D then Some (JObj [], r)
                 else map_option (\<lambda>(ms, rest). (JObj ms, rest)) (parse_members n (d # r)))
          else if c = 0x5B then
            (case skip_ws cs of
               [] \<Rightarrow> None
             | d # r \<Rightarrow>
                 if d = 0x5D then Some (JArr [], r)
                 else map_option (\<lambda>(vs, rest). (JArr vs, rest)) (parse_elements n (d # r)))
          else if c = 0x22 then map_option (\<lambda>(x, rest). (JStr x, rest)) (parse_string cs)
          else if prefix (js ''true'') s then Some (JBool True, drop 4 s)
          else if prefix (js ''false'') s then Some (JBool False, drop 5 s)
          else if prefix (js ''null'') s then Some (JNull, drop 4 s)
          else map_option (\<lambda>(x, rest). (JNum x, rest)) (parse_number s))"
| "parse_elements 0 s = None"
| "parse_elements (Suc n) s =
     (case parse_value n s of
        None \<Rightarrow> None
      | Some (v, r) \<Rightarrow>
          (case skip_ws r of
             [] \<Rightarrow> None
           | c # r' \<Rightarrow>
               if c = 0x2C then map_option (\<lambda>(vs, rest). (v # vs, rest)) (parse_elements n (skip_ws r'))
               else if c = 0x5D then Some ([v], r')
               else None))"
| "parse_members 0 s = None"
| "parse_members (Suc n) s =
     (case s of
        [] \<Rightarrow> None
      | c # cs \<Rightarrow>
          if c \<noteq> 0x22 then None
          else
            (case parse_string cs of
               None \<Rightarrow> None
             | Some (k, r) \<Rightarrow>
                 (case skip_ws r of
                    [] \<Rightarrow> None
                  | d # r1 \<Rightarrow>
                      if d \<noteq> 0x3A then None
                      else
                        (case parse_value n (skip_ws r1) of
                           None \<Rightarrow> None
                         | Some (v, r2) \<Rightarrow>
                             (case skip_ws r2 of
                                [] \<Rightarrow> None
                              | e # r3 \<Rightarrow>
                                  if e = 0x2C
                                  then map_option (\<lambda>(ms, rest). ((k, v) # ms, rest))
                                         (parse_members n (skip_ws r3))
                                  else if e = 0x7D then Some ([(k, v)], r3)
                                  else None)))))"

definition JSON_parse :: "jstring \<Rightarrow> json option" where
  "JSON_parse s =
     (case parse_value (Suc (2 * length s)) (skip_ws s) of
        None \<Rightarrow> None
      | Some (v, rest) \<Rightarrow> if skip_ws rest = [] then Some v else None)"

section \<open>From a parsed line to an event\<close>

text \<open>
  The handlers read \<open>data.type\<close>, \<open>data.content\<close> and \<open>data.conversation_id\<close> from
  the parsed object. \<open>event_of_json\<close> reads them once, for the payloads the protocol
  documents: a string for the text kinds, an object for \<open>sql_result\<close> and
  \<open>confirmation_required\<close>, an integer literal for \<open>row_count\<close> and
  \<open>conversation_id\<close>. A line of another shape lies outside the typed events and is
  decoded as \<open>Other\<close>; nothing below relies on that case, and every result about the
  loops holds for any parser.
\<close>

definition json_field :: "jstring \<Rightarrow> json \<Rightarrow> json option" where
  "json_field k j = (case j of JObj kvs \<Rightarrow> map_of (rev kvs) k | _ \<Rightarrow> None)"

definition json_text :: "json option \<Rightarrow> jstring option" where
  "json_text j = (case j of Some (JStr t) \<Rightarrow> Some t | _ \<Rightarrow> None)"

definition decimal_value :: "jstring \<Rightarrow> nat" where
  "decimal_value t = foldl (\<lambda>a c. 10 * a + unat (c - 0x30)) 0 t"

definition json_int :: "json option \<Rightarrow> int option" where
  "json_int j =
     (case j of
        Some (JNum t) \<Rightarrow>
          if t \<noteq> [] \<and> list_all is_digit t then Some (int (decimal_value t))
          else if 1 < length t \<and> hd t = 0x2D \<and> list_all is_digit (tl t)
          then Some (- int (decimal_value (tl t)))
          else None
      | _ \<Rightarrow> None)"

definition json_nat :: "json option \<Rightarrow> nat option" where
  "json_nat j =
     (case j of
        Some (JNum t) \<Rightarrow> if t \<noteq> [] \<and> list_all is_digit t then Some (decimal_value t) else None
      | _ \<Rightarrow> None)"

definition sql_result_of_json :: "json \<Rightarrow> sql_result" where
  "sql_result_of_json c =
     \<lparr>success = (case json_field (js ''success'') c of Some (JBool b) \<Rightarrow> Some b | _ \<Rightarrow> None),
      row_count = json_int (json_field (js ''row_count'') c),
      data = (case json_field (js ''data'') c of Some (JArr rows) \<Rightarrow> Some rows | _ \<Rightarrow> None),
      res_message = json_text (json_field (js ''message'') c),
      res_error = json_text (json_field (js ''error'') c)\<rparr>"

definition text_event :: "(jstring \<Rightarrow> event) \<Rightarrow> jstring \<Rightarrow> json \<Rightarrow> event" where
  "text_event mk ty d = (case json_text (json_field (js ''content'') d) of Some t \<Rightarrow> mk t | None \<Rightarrow> Other ty)"

definition confirmation_of_json :: "jstring \<Rightarrow> json \<Rightarrow> event" where
  "confirmation_of_json ty d =
     (case json_field (js ''content'') d of
        Some c \<Rightarrow>
          (case (json_text (json_field (js ''operation'') c), json_text (json_field (js ''sql'') c),
                 json_text (json_field (js ''message'') c)) of
             (Some opn, Some q, Some m) \<Rightarrow>
               Confirmation_required \<lparr>conf_operation = opn, conf_sql = q, conf_message = m\<rparr>
           | _ \<Rightarrow> Other ty)
      | None \<Rightarrow> Other ty)"

definition event_of_json :: "json \<Rightarrow> event" where
  "event_of_json d =
     (case json_text (json_field (js ''type'') d) of
        None \<Rightarrow> Other []
      | Some ty \<Rightarrow>
          if ty = js ''ai_response'' then text_event Ai_response ty d
          else if ty = js ''sql_query'' then text_event Sql_query ty d
          else if ty = js ''step_indicator'' then text_event Step_indicator ty d
          else if ty = js ''brief_reasoning'' then text_event Brief_reasoning ty d
          else if ty = js ''loading'' then text_event Loading ty d
          else if ty = js ''sql_result'' then
            Sql_result (case json_field (js ''content'') d of
                          Some (JObj kvs) \<Rightarrow> Some (sql_result_of_json (JObj kvs))
                        | _ \<Rightarrow> None)
          else if ty = js ''analyzing'' then text_event Analyzing ty d
          else if ty = js ''final_answer_chunk'' then text_event Final_answer_chunk ty d
          else if ty = js ''final_answer_complete'' then text_event Final_answer_complete ty d
          else if ty = js ''final_answer'' then text_event Final_answer ty d
          else if ty = js ''checking_graph'' then text_event Checking_graph ty d
          else if ty = js ''chart_config'' then
            (case json_field (js ''content'') d of Some c \<Rightarrow> Chart_config c | None \<Rightarrow> Other ty)
          else if ty = js ''graph_decision'' then Graph_decision
          else if ty = js ''confirmation_required'' then confirmation_of_json ty d
          else if ty = js ''cancelled'' then Cancelled
          else if ty = js ''done'' then Done (json_nat (json_field (js ''conversation_id'') d))
          else Other ty)"

definition parse_event :: "jstring \<Rightarrow> event option" where
  "parse_event s = map_option event_of_json (JSON_parse s)"

section \<open>The confirmation round\<close>

text \<open>
  \<open>main-layout.tsx\<close>, \<open>onConfirmAction\<close>. What is fixed for one round: the operation, SQL
  and explanation read from the tag, the model, the \<open>conversationId\<close> and token the
  callback captured, and the runtime's \<open>JSON.stringify(_, null, 2)\<close> and
  \<open>toLowerCase\<close>.
\<close>

record confirm_config =
  cf_operation :: jstring
  cf_sql :: jstring
  cf_explanation :: jstring
  cf_model :: jstring
  cf_conversationId :: "nat option"
  cf_token :: "jstring option"
  cf_stringify :: "json \<Rightarrow> jstring"
  cf_toLowerCase :: "jstring \<Rightarrow> jstring"

text \<open>
  \<open>loadConversation\<close> up to its first \<open>await\<close>: without a token it returns at once,
  otherwise it empties the message list before it asks the backend.
\<close>

definition loadConversation_begin :: "jstring option \<Rightarrow> session \<Rightarrow> session" where
  "loadConversation_begin token s =
     (if token = None \<or> token = Some [] then s
      else s\<lparr>isLoadingChat := True, messages := []\<rparr>)"

text \<open>\<open>operation.toLowerCase()\<close> with \<open>ed\<close> in place of a final \<open>e\<close>, or added.\<close>

definition operationText :: "(jstring \<Rightarrow> jstring) \<Rightarrow> jstring \<Rightarrow> jstring" where
  "operationText lower opn =
     (let t = lower opn
      in if t \<noteq> [] \<and> last t = 0x65 then butlast t @ js ''ed'' else t @ js ''ed'')"

definition confirm_result_text :: "confirm_config \<Rightarrow> int \<Rightarrow> jstring" where
  "confirm_result_text cf n =
     js ''**'' @ layout_check @ js '' Result:** Successfully ''
       @ operationText (cf_toLowerCase cf) (cf_operation cf) @ js '' '' @ show_int n @ js '' record(s).''"

definition confirm_error_text :: "sql_result \<Rightarrow> jstring" where
  "confirm_error_text r =
     js ''**'' @ layout_cross @ js '' Error:** ''
       @ (case res_error r of
            Some e \<Rightarrow> if e \<noteq> [] then e else js ''Operation failed''
          | None \<Rightarrow> js ''Operation failed'')"

text \<open>\<open>result.row_count || 0\<close> and \<open>result.data || []\<close>.\<close>

definition confirm_query_result :: "confirm_config \<Rightarrow> sql_result \<Rightarrow> jstring" where
  "confirm_query_result cf r =
     (let n = (case row_count r of None \<Rightarrow> 0 | Some k \<Rightarrow> k)
      in js ''\<newline>\<newline>**'' @ layout_clipboard @ js '' Query Result:** ('' @ show_int n @ js '' row''
           @ (if n \<noteq> 1 then js ''s'' else []) @ js '' returned)\<newline>\<newline>```table\<newline>''
           @ cf_stringify cf (JArr (case data r of None \<Rightarrow> [] | Some rows \<Rightarrow> rows))
           @ js ''\<newline>```'')"

definition layout_reasoning_block :: "jstring \<Rightarrow> jstring" where
  "layout_reasoning_block t =
     js ''\<newline>\<newline>---\<newline>\<newline>'' @ layout_thought @ js '' **Next Step:** '' @ t
       @ js ''\<newline>\<newline>''"

definition append_unless_included :: "jstring \<Rightarrow> jstring \<Rightarrow> jstring \<Rightarrow> jstring" where
  "append_unless_included probe addition c = (if str_includes c probe then c else c @ addition)"

text \<open>\<open>s.lastIndexOf(t)\<close>, with \<open>None\<close> for \<open>-1\<close>.\<close>

definition lastIndexOf :: "jstring \<Rightarrow> jstring \<Rightarrow> nat option" where
  "lastIndexOf s t =
     (case filter (\<lambda>k. prefix t (drop k s)) (rev [0..<Suc (length s)]) of
        [] \<Rightarrow> None
      | k # ks \<Rightarrow> Some k)"

definition summary_header :: jstring where
  "summary_header = js ''\<newline>\<newline>**'' @ layout_bulb @ js '' Summary:**''"

text \<open>
  The chunk handler of the round writes the header into the message before it looks for a
  duplicate, so the header stays even when the chunk is then skipped.
\<close>

definition append_summary_chunk :: "jstring \<Rightarrow> jstring \<Rightarrow> jstring" where
  "append_summary_chunk chunk c =
     (let c1 = (if str_includes c summary_header then c else c @ summary_header @ js ''\<newline>'')
      in case lastIndexOf c1 (summary_header @ js ''\<newline>'') of
           None \<Rightarrow> c1 @ chunk
         | Some i \<Rightarrow>
             if suffix chunk (drop (i + length (summary_header @ js ''\<newline>'')) c1) then c1
             else c1 @ chunk)"

text \<open>The callback that \<open>onConfirmAction\<close> gives \<open>confirmAgentOperationStream\<close>.\<close>

fun confirm_event :: "confirm_config \<Rightarrow> event \<Rightarrow> session \<Rightarrow> session" where
  "confirm_event cf (Sql_result result) s =
     (case result of
        None \<Rightarrow> s
      | Some r \<Rightarrow>
          if cf_operation cf \<noteq> [] \<and> success r \<noteq> None \<and> row_count r \<noteq> None \<and> data r = None then
            (let s1 = s\<lparr>localStatus := js ''Operation completed, analyzing next steps...''\<rparr>
             in if success r = Some True then
                  (let resultText = confirm_result_text cf (the (row_count r))
                   in s1\<lparr>messages := update_last is_assistant
                                       (append_unless_included resultText (js ''\<newline>\<newline>'' @ resultText))
                                       (messages s1)\<rparr>)
                else
                  (let errorText = confirm_error_text r
                   in s1\<lparr>messages := update_last is_assistant
                                       (append_unless_included errorText (js ''\<newline>\<newline>'' @ errorText))
                                       (messages s1)\<rparr>))
          else if success r = Some True then
            (let resultContent = confirm_query_result cf r
             in s\<lparr>messages := update_last is_assistant
                                 (append_unless_included resultContent resultContent) (messages s)\<rparr>)
          else s)"
| "confirm_event cf (Brief_reasoning c) s =
     s\<lparr>messages := update_last is_assistant
                     (append_unless_included (layout_thought @ js '' **Next Step:** '' @ c)
                        (layout_reasoning_block c))
                     (messages s)\<rparr>"
| "confirm_event cf (Loading c) s = s\<lparr>localStatus := c\<rparr>"
| "confirm_event cf (Confirmation_required c) s =
     (let s1 = s\<lparr>localStatus := [], isStreaming := False,
                  pendingOperation :=
                    Some \<lparr>operation = conf_operation c, sql = conf_sql c,
                          explanation = conf_message c, op_model = cf_model cf\<rparr>\<rparr>
      in if no_conversation (cf_conversationId cf) then s1
         else loadConversation_begin (cf_token cf) s1)"
| "confirm_event cf (Final_answer_chunk c) s =
     s\<lparr>messages := update_last is_assistant (append_summary_chunk c) (messages s)\<rparr>"
| "confirm_event cf (Final_answer_complete c) s = s"
| "confirm_event cf (Sql_query c) s =
     s\<lparr>messages := update_last is_assistant
                     (append_unless_included c
                        (js ''\<newline>\<newline>**Executed SQL Query:**\<newline>```sql\<newline>'' @ c @ js ''\<newline>```''))
                     (messages s)\<rparr>"
| "confirm_event cf (Chart_config c) s =
     (let chartContent = js ''\<newline>\<newline>```chart\<newline>'' @ cf_stringify cf c @ js ''\<newline>```''
      in s\<lparr>messages := update_last is_assistant (append_unless_included chartContent chartContent)
                          (messages s)\<rparr>)"
| "confirm_event cf (Done cid) s =
     (if no_conversation (cf_conversationId cf)
      then s\<lparr>localStatus := [], isStreaming := False, conversationId := cid\<rparr>
      else s\<lparr>localStatus := [], isStreaming := False\<rparr>)"
| "confirm_event cf (Ai_response c) s = s"
| "confirm_event cf (Step_indicator c) s = s"
| "confirm_event cf (Analyzing c) s = s"
| "confirm_event cf (Final_answer c) s = s"
| "confirm_event cf (Checking_graph c) s = s"
| "confirm_event cf Graph_decision s = s"
| "confirm_event cf Cancelled s = s"
| "confirm_event cf (Other t) s = s"

text \<open>
  The two branches of \<open>onConfirmAction\<close>. Cancel clears the pending operation and posts the
  text \<open>Cancel\<close> as a plain agent request; only an \<open>ok\<close> response makes it strip the
  directive. Execute clears the pending operation, strips the directive and opens the
  confirm-and-execute stream.
\<close>

datatype fetch_result = Fetch_ok | Fetch_not_ok | Fetch_failed

definition onConfirmAction_cancel :: "fetch_result \<Rightarrow> session \<Rightarrow> session" where
  "onConfirmAction_cancel res s =
     (let s1 = s\<lparr>pendingOperation := None, requests := requests s @ [Post_agent (js ''Cancel'')]\<rparr>
      in if res = Fetch_ok
         then s1\<lparr>messages := update_last is_assistant (remove_confirmation layout_warning_text)
                              (messages s1)\<rparr>
         else s1)"

definition onConfirmAction_execute :: "confirm_config \<Rightarrow> session \<Rightarrow> session" where
  "onConfirmAction_execute cf s =
     s\<lparr>pendingOperation := None, isStreaming := True,
       localStatus := js ''Executing operation...'',
       messages := update_last is_assistant (remove_confirmation layout_warning_text) (messages s),
       requests := requests s
         @ [Post_agent_confirm (cf_operation cf) (cf_sql cf) (cf_explanation cf) True]\<rparr>"

section \<open>Reading a stream\<close>

text \<open>
  \<open>api.ts\<close>. The three stream functions share the body of their loop: split the chunk at
  line feeds and, for each line that starts with \<open>data: \<close>, parse the rest and call the
  callback. \<open>JSON.parse\<close> throws on text that is not JSON (\<open>parse\<close> gives \<open>None\<close>), and
  nothing inside the loop catches it. The text of a chunk is what \<open>TextDecoder\<close> gave.
\<close>

fun process_lines :: "(jstring \<Rightarrow> 'e option) \<Rightarrow> ('e \<Rightarrow> 's \<Rightarrow> 's outcome) \<Rightarrow> jstring list \<Rightarrow> 's \<Rightarrow> 's outcome" where
  "process_lines parse onChunk [] st = Ok st"
| "process_lines parse onChunk (line # lines) st =
     (if str_startsWith line (js ''data: '') then
        (case parse (drop 6 line) of
           None \<Rightarrow> Thrown SyntaxError st
         | Some d \<Rightarrow>
             (case onChunk d st of
                Ok st' \<Rightarrow> process_lines parse onChunk lines st'
              | Thrown e st' \<Rightarrow> Thrown e st'))
      else process_lines parse onChunk lines st)"

definition process_chunk :: "(jstring \<Rightarrow> 'e option) \<Rightarrow> ('e \<Rightarrow> 's \<Rightarrow> 's outcome) \<Rightarrow> jstring \<Rightarrow> 's \<Rightarrow> 's outcome" where
  "process_chunk parse onChunk chunk st = process_lines parse onChunk (str_split chunk) st"

text \<open>
  The events one chunk hands to the callback, in order, and whether decoding threw; and the
  same for the chunks of a stream, which stops at the first chunk that throws.
\<close>

definition decode_chunk :: "(jstring \<Rightarrow> 'e option) \<Rightarrow> jstring \<Rightarrow> 'e list outcome" where
  "decode_chunk parse chunk = process_chunk parse (\<lambda>d ds. Ok (ds @ [d])) chunk []"

fun decode_chunks_from :: "(jstring \<Rightarrow> 'e option) \<Rightarrow> jstring list \<Rightarrow> 'e list \<Rightarrow> 'e list outcome" where
  "decode_chunks_from parse [] ds = Ok ds"
| "decode_chunks_from parse (chunk # chunks) ds =
     (case process_chunk parse (\<lambda>d ds. Ok (ds @ [d])) chunk ds of
        Ok ds' \<Rightarrow> decode_chunks_from parse chunks ds'
      | Thrown e ds' \<Rightarrow> Thrown e ds')"

definition decode_stream :: "(jstring \<Rightarrow> 'e option) \<Rightarrow> jstring list \<Rightarrow> 'e list outcome" where
  "decode_stream parse chunks = decode_chunks_from parse chunks []"

text \<open>
  What can happen while a loop waits in \<open>await reader.read()\<close>: the read resolves with a
  chunk (here with the formatted time at which its lines are handled), resolves with
  \<open>done\<close>, or rejects; or the user stops the generation and the loop goes on waiting for
  the read it has already issued.
\<close>

datatype read_result = Chunk jstring jstring | End_of_stream | Read_rejected

datatype tick = Read read_result | Stop

datatype status = Suspended | Returned | Raised exn

text \<open>
  The loop of \<open>sendAskQueryStream\<close> and \<open>sendAgentQueryStream\<close>, from the point where it
  waits for a read. The signal is looked at before each read and in the \<open>catch\<close>, not
  between a read and the handling of its chunk.
\<close>

fun await_read :: "nat \<Rightarrow> (jstring \<Rightarrow> event option) \<Rightarrow> (jstring \<Rightarrow> event \<Rightarrow> stream_state \<Rightarrow> stream_state outcome)
    \<Rightarrow> tick list \<Rightarrow> stream_state \<Rightarrow> status \<times> stream_state" where
  "await_read sig parse onChunk [] st = (Suspended, st)"
| "await_read sig parse onChunk (Stop # ts) (v, s) =
     await_read sig parse onChunk ts (v, handleStopGeneration s)"
| "await_read sig parse onChunk (Read End_of_stream # ts) st = (Returned, st)"
| "await_read sig parse onChunk (Read Read_rejected # ts) (v, s) =
     (if signal_aborted sig s then (Returned, (v, s)) else (Raised NetworkError, (v, s)))"
| "await_read sig parse onChunk (Read (Chunk now text) # ts) st =
     (case process_chunk parse (onChunk now) text st of
        Ok (v', s') \<Rightarrow>
          if signal_aborted sig s' then (Returned, (v', s'))
          else await_read sig parse onChunk ts (v', s')
      | Thrown e (v', s') \<Rightarrow>
          if signal_aborted sig s' then (Returned, (v', s')) else (Raised e, (v', s')))"

definition read_loop :: "nat \<Rightarrow> (jstring \<Rightarrow> event option) \<Rightarrow> (jstring \<Rightarrow> event \<Rightarrow> stream_state \<Rightarrow> stream_state outcome)
    \<Rightarrow> tick list \<Rightarrow> stream_state \<Rightarrow> status \<times> stream_state" where
  "read_loop sig parse onChunk ts st =
     (if signal_aborted sig (snd st) then (Returned, st) else await_read sig parse onChunk ts st)"

definition sendAskQueryStream :: "nat \<Rightarrow> (jstring \<Rightarrow> event option) \<Rightarrow> stream_config \<Rightarrow> tick list \<Rightarrow> stream_state \<Rightarrow> status \<times> stream_state" where
  "sendAskQueryStream sig parse cfg = read_loop sig parse (\<lambda>now e st. Ok (ask_event cfg now e st))"

definition sendAgentQueryStream :: "nat \<Rightarrow> (jstring \<Rightarrow> event option) \<Rightarrow> stream_config \<Rightarrow> tick list \<Rightarrow> stream_state \<Rightarrow> status \<times> stream_state" where
  "sendAgentQueryStream sig parse cfg = read_loop sig parse (agent_event cfg)"

text \<open>
  The loop of \<open>confirmAgentOperationStream\<close> does not look at its signal before a read,
  and \<open>onConfirmAction\<close> passes it no signal at all.
\<close>

fun confirm_read_loop :: "nat option \<Rightarrow> (jstring \<Rightarrow> event option) \<Rightarrow> confirm_config \<Rightarrow> tick list \<Rightarrow> session \<Rightarrow> status \<times> session" where
  "confirm_read_loop sig parse cf [] s = (Suspended, s)"
| "confirm_read_loop sig parse cf (Stop # ts) s =
     confirm_read_loop sig parse cf ts (handleStopGeneration s)"
| "confirm_read_loop sig parse cf (Read End_of_stream # ts) s = (Returned, s)"
| "confirm_read_loop sig parse cf (Read Read_rejected # ts) s =
     (case sig of
        Some c \<Rightarrow> if signal_aborted c s then (Returned, s) else (Raised NetworkError, s)
      | None \<Rightarrow> (Raised NetworkError, s))"
| "confirm_read_loop sig parse cf (Read (Chunk now text) # ts) s =
     (case process_chunk parse (\<lambda>e s. Ok (confirm_event cf e s)) text s of
        Ok s' \<Rightarrow> confirm_read_loop sig parse cf ts s'
      | Thrown e s' \<Rightarrow>
          (case sig of
             Some c \<Rightarrow> if signal_aborted c s' then (Returned, s') else (Raised e, s')
           | None \<Rightarrow> (Raised e, s')))"

definition confirmAgentOperationStream :: "(jstring \<Rightarrow> event option) \<Rightarrow> confirm_config \<Rightarrow> tick list \<Rightarrow> session \<Rightarrow> status \<times> session" where
  "confirmAgentOperationStream parse cf = confirm_read_loop None parse cf"

text \<open>
  A read result that is not a chunk: the end of the stream, or a rejection. A loop that
  was still waiting when the ticks ran out has, after one of these, returned.
\<close>

fun is_chunk :: "read_result \<Rightarrow> bool" where
  "is_chunk (Chunk now text) = True"
| "is_chunk r = False"

fun finished :: "status \<Rightarrow> status" where
  "finished Suspended = Returned"
| "finished x = x"

text \<open>A callback that leaves the abort controllers alone, as all three callbacks do.\<close>

definition keeps_signals :: "('e \<Rightarrow> stream_state \<Rightarrow> stream_state outcome) \<Rightarrow> bool" where
  "keeps_signals h \<longleftrightarrow>
     (\<forall>e st. abortedSignals (snd (state_of (h e st))) = abortedSignals (snd st)
           \<and> abortControllerRef (snd (state_of (h e st))) = abortControllerRef (snd st))"

section \<open>Sending a message\<close>

text \<open>
  \<open>handleSendMessage\<close> around the stream: before it, the user's message is appended, the
  loading flag and status are set and a new controller is stored; after it, an error other
  than an abort becomes one more assistant message, and in every case the loading flag and
  the controller reference are cleared.
\<close>

definition handleSendMessage_begin :: "message \<Rightarrow> session \<Rightarrow> session" where
  "handleSendMessage_begin newMessage s =
     s\<lparr>messages := messages s @ [newMessage], isLoading := True,
       currentStatus := js ''AI is planning...'',
       abortControllerRef := Some (controllersCreated s),
       controllersCreated := Suc (controllersCreated s)\<rparr>"

definition errorMessage :: "jstring \<Rightarrow> jstring \<Rightarrow> jstring \<Rightarrow> message" where
  "errorMessage mid now text =
     \<lparr>msg_id = mid, role = Assistant,
      content = js ''Error: '' @ text @ js ''. Please make sure the backend server is running.'',
      timestamp = now, model = None, attachments = None\<rparr>"

definition handleSendMessage_end :: "jstring \<Rightarrow> jstring \<Rightarrow> (exn \<Rightarrow> jstring) \<Rightarrow> exn option \<Rightarrow> session \<Rightarrow> session" where
  "handleSendMessage_end mid now message_of thrown s =
     (let s1 = (case thrown of
                  None \<Rightarrow> s
                | Some e \<Rightarrow>
                    if e = AbortError then s
                    else s\<lparr>messages := messages s @ [errorMessage mid now (message_of e)]\<rparr>)
      in s1\<lparr>isLoading := False, abortControllerRef := None\<rparr>)"


section \<open>Runs of events and what is observed\<close>

text \<open>
  A stream applies its events one after the other; each comes with the time at which it
  is handled. The agent run stops at the first handler that throws.
\<close>

definition ask_events :: "stream_config \<Rightarrow> (jstring \<times> event) list \<Rightarrow> stream_state \<Rightarrow> stream_state" where
  "ask_events cfg evs st = foldl (\<lambda>st (now, e). ask_event cfg now e st) st evs"

fun agent_events :: "stream_config \<Rightarrow> (jstring \<times> event) list \<Rightarrow> stream_state \<Rightarrow> stream_state outcome" where
  "agent_events cfg [] st = Ok st"
| "agent_events cfg ((now, e) # evs) st =
     (case agent_event cfg now e st of
        Ok st' \<Rightarrow> agent_events cfg evs st'
      | Thrown x st' \<Rightarrow> Thrown x st')"

text \<open>
  The length of the active assistant message's content: the last message when it is the
  streaming one, and nothing before that message exists.
\<close>

definition active_length :: "stream_config \<Rightarrow> session \<Rightarrow> nat" where
  "active_length cfg s =
     (if messages s \<noteq> [] \<and> is_streaming cfg (last (messages s))
      then length (content (last (messages s))) else 0)"

text \<open>
  The kinds after which the content can be shorter than before. A rewrite of the final
  answer (\<open>final_answer_complete\<close>, \<open>final_answer\<close>) may replace a longer text; the
  indicator that \<open>analyzing\<close> and \<open>checking_graph\<close> write after the composed content,
  and the directive that \<open>confirmation_required\<close> writes after it, are dropped by the
  next event that recomposes the content; \<open>cancelled\<close> strips the directive. Every
  other kind is \<open>growing\<close>; the ask handler ignores \<open>confirmation_required\<close> and
  \<open>cancelled\<close>, and the agent handler ignores the two indicators.
\<close>

fun growing_ask :: "event \<Rightarrow> bool" where
  "growing_ask (Analyzing c) = False"
| "growing_ask (Checking_graph c) = False"
| "growing_ask (Final_answer_complete c) = False"
| "growing_ask (Final_answer c) = False"
| "growing_ask e = True"

fun growing_agent :: "event \<Rightarrow> bool" where
  "growing_agent (Confirmation_required c) = False"
| "growing_agent Cancelled = False"
| "growing_agent (Final_answer_complete c) = False"
| "growing_agent (Final_answer c) = False"
| "growing_agent e = True"

text \<open>
  What every reachable state of a stream satisfies: the accumulated content is empty or has
  a code unit that \<open>trim\<close> keeps, so that \<open>buildContent\<close> never drops it.
\<close>

definition visible :: "jstring \<Rightarrow> bool" where
  "visible a \<longleftrightarrow> a = [] \<or> str_trim a \<noteq> []"

text \<open>
  Between growing events, the streaming message shows exactly the composed content.
\<close>

definition inv_ask :: "stream_config \<Rightarrow> stream_state \<Rightarrow> bool" where
  "inv_ask cfg st \<longleftrightarrow>
     visible (accumulatedContent (fst st)) \<and>
     (messages (snd st) \<noteq> [] \<and> is_streaming cfg (last (messages (snd st)))
        \<longrightarrow> content (last (messages (snd st))) = buildContent_ask cfg (fst st))"

definition inv_agent :: "stream_config \<Rightarrow> stream_state \<Rightarrow> bool" where
  "inv_agent cfg st \<longleftrightarrow>
     visible (accumulatedContent (fst st)) \<and>
     (messages (snd st) \<noteq> [] \<and> is_streaming cfg (last (messages (snd st)))
        \<longrightarrow> content (last (messages (snd st))) = buildContent_agent cfg (fst st))"

text \<open>
  What a rewrite of the final answer does to the composed content \<open>build v\<close>: the
  accumulated content is untouched and is a prefix of the composed content before and
  after; the final answer is the event's text \<open>t\<close>, which ends the composed content; and
  an empty \<open>t\<close> leaves the accumulated content alone.
\<close>

definition rewrites_final_answer_only :: "(stream_vars \<Rightarrow> jstring) \<Rightarrow> stream_vars \<Rightarrow> stream_vars \<Rightarrow> jstring \<Rightarrow> bool" where
  "rewrites_final_answer_only build v v' t \<longleftrightarrow>
     accumulatedContent v' = accumulatedContent v \<and> finalAnswer v' = t
     \<and> prefix (accumulatedContent v) (build v) \<and> prefix (accumulatedContent v) (build v')
     \<and> suffix t (build v') \<and> (t = [] \<longrightarrow> build v' = accumulatedContent v)"

text \<open>
  What a rewrite shows in the message list \<open>ms\<close>, giving \<open>ms'\<close>: when the last message
  passes \<open>guard\<close>, its content is now \<open>c\<close> and nothing else of it has changed; otherwise
  the list is as before; and in both cases the messages before the last are as before.
\<close>

definition rewritten_in_place :: "(message \<Rightarrow> bool) \<Rightarrow> jstring \<Rightarrow> message list \<Rightarrow> message list \<Rightarrow> bool" where
  "rewritten_in_place guard c ms ms' \<longleftrightarrow>
     length ms' = length ms \<and> butlast ms' = butlast ms
     \<and> (if ms \<noteq> [] \<and> guard (last ms) then last ms' = (last ms)\<lparr>content := c\<rparr> else ms' = ms)"

text \<open>
  What a handler may do to the message list \<open>ms\<close>, giving \<open>ms'\<close>: every message
  before the last stays as it is and where it is, none is removed, and the last message can
  differ in its content only, and only when it passes \<open>guard\<close>. At most one message is
  added after it.
\<close>

definition frame_kept :: "(message \<Rightarrow> bool) \<Rightarrow> message list \<Rightarrow> message list \<Rightarrow> bool" where
  "frame_kept guard ms ms' \<longleftrightarrow>
     prefix (butlast ms) ms' \<and> length ms \<le> length ms' \<and> length ms' \<le> Suc (length ms)
     \<and> (ms \<noteq> [] \<longrightarrow>
          ms' ! (length ms - 1) = (last ms)\<lparr>content := content (ms' ! (length ms - 1))\<rparr>
          \<and> (\<not> guard (last ms) \<longrightarrow> ms' ! (length ms - 1) = last ms))"

text \<open>
  The one handler that does not work on the last message: in the confirmation round,
  \<open>confirmation_required\<close> calls \<open>loadConversation\<close> when the callback knows a
  conversation id, and with a token that empties the list and fetches the conversation
  again.
\<close>

definition reloads_conversation :: "confirm_config \<Rightarrow> event \<Rightarrow> bool" where
  "reloads_conversation cf e \<longleftrightarrow>
     (case e of
        Confirmation_required c \<Rightarrow>
          \<not> no_conversation (cf_conversationId cf) \<and> cf_token cf \<noteq> None \<and> cf_token cf \<noteq> Some []
      | _ \<Rightarrow> False)"

section \<open>A worked session\<close>

text \<open>
  Concrete values for running the model: an empty session, the configuration of one agent
  request, the user's message, and a confirmation payload. \<open>example_awaiting\<close> is the
  session after the request has been sent, the stream has delivered
  \<open>confirmation_required\<close> and ended, and \<open>handleSendMessage\<close> has returned: the client
  is waiting for the user's decision and no stream is open.
\<close>

definition empty_session :: session where
  "empty_session =
     \<lparr>messages = [], conversationId = None, isLoading = False, isLoadingChat = False,
      currentStatus = [], pendingOperation = None, abortControllerRef = None,
      abortedSignals = [], controllersCreated = 0, localStatus = [], isStreaming = False,
      requests = []\<rparr>"

definition example_config :: stream_config where
  "example_config =
     \<lparr>streamingMessageId = js ''1001'', selectedModel = js ''gemini-2.5-flash'',
      isGeneralMode = False, sentConversationId = Some 7, stringify = (\<lambda>j. js ''null'')\<rparr>"

definition example_user_message :: message where
  "example_user_message =
     \<lparr>msg_id = js ''1000'', role = User, content = js ''delete the test rows'',
      timestamp = js ''10:00'', model = None, attachments = None\<rparr>"

definition example_confirmation :: confirmation where
  "example_confirmation =
     \<lparr>conf_operation = js ''DELETE'', conf_sql = js ''DELETE FROM t'',
      conf_message = js ''Remove rows''\<rparr>"

definition example_awaiting :: session where
  "example_awaiting =
     handleSendMessage_end (js ''1002'') (js ''10:01'') (\<lambda>e. []) None
       (snd (state_of (agent_event example_config (js ''10:00'')
          (Confirmation_required example_confirmation)
          (initial_vars, handleSendMessage_begin example_user_message empty_session))))"

definition example_ask_config :: stream_config where
  "example_ask_config =
     \<lparr>streamingMessageId = js ''1001'', selectedModel = js ''gemini-2.5-flash'',
      isGeneralMode = False, sentConversationId = None, stringify = (\<lambda>j. js ''null'')\<rparr>"

definition example_sent :: session where
  "example_sent = handleSendMessage_begin example_user_message empty_session"

definition example_events :: "(jstring \<times> event) list" where
  "example_events =
     [(js ''10:00'', Ai_response (js ''Let me check'')),
      (js ''10:00'', Sql_query (js ''SELECT 1'')),
      (js ''10:00'', Final_answer_chunk (js ''The ''))]"

definition example_shrinking :: "(jstring \<times> event) list" where
  "example_shrinking =
     [(js ''10:00'', Ai_response (js ''Let me check'')),
      (js ''10:00'', Analyzing (js ''Analyzing the query results''))]"

definition example_ask_state :: stream_state where
  "example_ask_state = ask_events example_ask_config example_events (initial_vars, example_sent)"

definition example_agent_state :: stream_state where
  "example_agent_state = state_of (agent_events example_ask_config example_events (initial_vars, example_sent))"

definition example_round_config :: confirm_config where
  "example_round_config =
     \<lparr>cf_operation = js ''DELETE'', cf_sql = js ''DELETE FROM t'', cf_explanation = js ''Remove rows'',
      cf_model = js ''gemini-2.5-flash'', cf_conversationId = Some 7, cf_token = Some (js ''token''),
      cf_stringify = (\<lambda>j. js ''null''), cf_toLowerCase = (\<lambda>t. t)\<rparr>"

text \<open>
  The content of the confirmation message of \<open>example_awaiting\<close> once the user has decided,
  and the confirmation round after the user has chosen Execute and the stream has delivered
  a first chunk of the summary.
\<close>

definition example_executed_text :: jstring where
  "example_executed_text =
     js ''Remove rows\<newline>\<newline>**SQL to Execute:**\<newline>```sql\<newline>DELETE FROM t\<newline>```\<newline>\<newline>''
       @ warning_text"

definition example_round_state :: session where
  "example_round_state =
     confirm_event example_round_config (Final_answer_chunk (js ''The ''))
       (onConfirmAction_execute example_round_config example_awaiting)"

definition example_empty_result :: sql_result where
  "example_empty_result =
     \<lparr>success = Some True, row_count = Some 0, data = Some [], res_message = None, res_error = None\<rparr>"

text \<open>
  The chunk of the decoder scenario: a line that is not JSON, then a \<open>loading\<close> line; and
  a \<open>loading\<close> line cut in two in the middle.
\<close>

definition example_malformed_chunk :: jstring where
  "example_malformed_chunk =
     js ''data: {not json\<newline>data: {\"type\":\"loading\",\"content\":\"Processing...\"}''"

definition example_loading_event :: json where
  "example_loading_event =
     JObj [(js ''type'', JStr (js ''loading'')), (js ''content'', JStr (js ''Processing...''))]"

definition example_first_half :: jstring where
  "example_first_half = js ''data: {\"type\":\"loa''"

definition example_second_half :: jstring where
  "example_second_half = js ''ding\",\"content\":\"Processing...\"}\<newline>''"

text \<open>
  Two lines of an ask stream, and the ticks of a stream that delivers the first and is then
  stopped.
\<close>

definition example_ai_line :: jstring where
  "example_ai_line = js ''data: {\"type\":\"ai_response\",\"content\":\"Let me check\"}\<newline>''"

definition example_sql_line :: jstring where
  "example_sql_line = js ''data: {\"type\":\"sql_query\",\"content\":\"SELECT 1\"}\<newline>''"

definition example_stopped :: "tick list" where
  "example_stopped = [Read (Chunk (js ''10:00'') example_ai_line), Stop]"

section \<open>Basic facts\<close>

lemma length_update_last [simp]: "length (update_last g f ms) = length ms"
  by (cases ms rule: rev_cases) (simp_all add: update_last_def)

lemma butlast_update_last [simp]: "butlast (update_last g f ms) = butlast ms"
  by (simp add: update_last_def)

lemma update_last_Nil [simp]: "update_last g f [] = []"
  by (simp add: update_last_def)

lemma update_last_eq_Nil [simp]: "update_last g f ms = [] \<longleftrightarrow> ms = []"
  by (simp add: update_last_def)

lemma last_update_last:
  "ms \<noteq> [] \<Longrightarrow> last (update_last g f ms) = (if g (last ms) then (last ms)\<lparr>content := f (content (last ms))\<rparr> else last ms)"
  by (simp add: update_last_def)

lemma update_last_snoc:
  "update_last g f (ms @ [m]) = ms @ [if g m then m\<lparr>content := f (content m)\<rparr> else m]"
  by (simp add: update_last_def)

lemma is_streaming_content [simp]: "is_streaming cfg (m\<lparr>content := c\<rparr>) = is_streaming cfg m"
  by (simp add: is_streaming_def)

lemma is_assistant_content [simp]: "is_assistant (m\<lparr>content := c\<rparr>) = is_assistant m"
  by (simp add: is_assistant_def)

lemma update_last_twice:
  assumes "\<And>m c. g (m\<lparr>content := c\<rparr>) = g m"
  shows "update_last g f2 (update_last g f1 ms) = update_last g (f2 \<circ> f1) ms"
proof (cases ms rule: rev_cases)
  case Nil
  then show ?thesis by simp
next
  case (snoc xs x)
  then show ?thesis by (simp add: update_last_snoc assms)
qed

lemma str_trim_empty_iff: "str_trim s = [] \<longleftrightarrow> (\<forall>c \<in> set s. isWhiteSpace c)"
proof -
  have "str_trim s = [] \<longleftrightarrow> (\<forall>c \<in> set (dropWhile isWhiteSpace s). isWhiteSpace c)"
    by (simp add: str_trim_def dropWhile_eq_Nil_conv)
  also have "\<dots> \<longleftrightarrow> dropWhile isWhiteSpace s = []"
  proof
    assume a: "\<forall>c \<in> set (dropWhile isWhiteSpace s). isWhiteSpace c"
    show "dropWhile isWhiteSpace s = []"
    proof (rule ccontr)
      assume n: "dropWhile isWhiteSpace s \<noteq> []"
      then have "\<not> isWhiteSpace (hd (dropWhile isWhiteSpace s))"
        by (rule hd_dropWhile)
      moreover from n have "hd (dropWhile isWhiteSpace s) \<in> set (dropWhile isWhiteSpace s)"
        by simp
      ultimately show False using a by blast
    qed
  qed (auto dest: set_dropWhileD)
  also have "\<dots> \<longleftrightarrow> (\<forall>c \<in> set s. isWhiteSpace c)"
    by (simp add: dropWhile_eq_Nil_conv)
  finally show ?thesis .
qed

lemma length_js [simp]: "length (js s) = length s"
  by (simp add: js_def)

lemma visible_append: "visible a \<Longrightarrow> str_trim x \<noteq> [] \<Longrightarrow> visible (a @ x)"
  by (auto simp: visible_def str_trim_empty_iff)

lemma visible_append_nonempty: "str_trim a \<noteq> [] \<Longrightarrow> str_trim (a @ x) \<noteq> []"
  by (auto simp: str_trim_empty_iff)

lemma includes_append: "str_includes a t \<Longrightarrow> str_includes (a @ x) t"
  by (auto simp: str_includes_def sublist_append)

lemma buildContent_ask_prefix:
  "visible (accumulatedContent v) \<Longrightarrow> prefix (accumulatedContent v) (buildContent_ask cfg v)"
  by (auto simp: buildContent_ask_def Let_def visible_def)

lemma buildContent_ask_suffix: "suffix (finalAnswer v) (buildContent_ask cfg v)"
  by (auto simp: buildContent_ask_def Let_def suffix_def)

lemma buildContent_ask_mono:
  assumes "visible a" "visible (a @ x)"
  shows "length (buildContent_ask cfg (v\<lparr>accumulatedContent := a, finalAnswer := f\<rparr>))
       \<le> length (buildContent_ask cfg (v\<lparr>accumulatedContent := a @ x, finalAnswer := f @ y\<rparr>))"
  using assms
  by (auto simp: buildContent_ask_def Let_def visible_def includes_append str_trim_empty_iff emoji_bulb_def)

lemma buildContent_agent_mono:
  assumes "visible a" "visible (a @ x)"
  shows "length (buildContent_agent cfg (v\<lparr>accumulatedContent := a, finalAnswer := f\<rparr>))
       \<le> length (buildContent_agent cfg (v\<lparr>accumulatedContent := a @ x, finalAnswer := f @ y\<rparr>))"
  using assms
  by (auto simp: buildContent_agent_def Let_def visible_def includes_append str_trim_empty_iff emoji_bulb_def)

lemma refresh_ask_idem: "refresh_ask cfg (refresh_ask cfg st) = refresh_ask cfg st"
  by (cases st) (simp add: refresh_ask_def update_last_twice comp_def)

lemma refresh_agent_idem: "refresh_agent cfg (refresh_agent cfg st) = refresh_agent cfg st"
  by (cases st) (simp add: refresh_agent_def update_last_twice comp_def)

lemma buildContent_agent_prefix:
  "visible (accumulatedContent v) \<Longrightarrow> prefix (accumulatedContent v) (buildContent_agent cfg v)"
  by (auto simp: buildContent_agent_def Let_def visible_def)

lemma buildContent_agent_suffix: "suffix (finalAnswer v) (buildContent_agent cfg v)"
  by (auto simp: buildContent_agent_def Let_def suffix_def)

lemma buildContent_ask_aiResponse [simp]:
  "buildContent_ask cfg (v\<lparr>aiResponse := c\<rparr>) = buildContent_ask cfg v"
  by (simp add: buildContent_ask_def Let_def)

lemma buildContent_agent_aiResponse [simp]:
  "buildContent_agent cfg (v\<lparr>aiResponse := c\<rparr>) = buildContent_agent cfg v"
  by (simp add: buildContent_agent_def Let_def)

lemma has_star_visible: "0x2A \<in> set x \<Longrightarrow> str_trim x \<noteq> []"
proof -
  assume "0x2A \<in> set x"
  moreover have "\<not> isWhiteSpace 0x2A"
    by (simp add: isWhiteSpace_def)
  ultimately show ?thesis
    by (auto simp: str_trim_empty_iff)
qed

lemma visible_blocks:
  "str_trim (sql_query_block_ask c) \<noteq> []"
  "str_trim (sql_query_block_agent c) \<noteq> []"
  "str_trim (reasoning_block c) \<noteq> []"
  "str_trim (query_result_block str r) \<noteq> []"
  "str_trim (chart_block str j) \<noteq> []"
  "str_trim (mutation_result_line r) \<noteq> []"
  by (rule has_star_visible, simp add: sql_query_block_ask_def sql_query_block_agent_def
      reasoning_block_def query_result_block_def chart_block_def mutation_result_line_def js_def)+

lemma visible_step_block: "str_trim (step_block c) \<noteq> []"
proof -
  have "0x23 \<in> set (step_block c)"
    by (simp add: step_block_def js_def)
  moreover have "\<not> isWhiteSpace 0x23"
    by (simp add: isWhiteSpace_def)
  ultimately show ?thesis
    by (auto simp: str_trim_empty_iff)
qed

lemmas visible_appends =
  visible_blocks [THEN visible_append [rotated]] visible_step_block [THEN visible_append [rotated]]

lemma ask_event_visible:
  "visible (accumulatedContent (fst st)) \<Longrightarrow> visible (accumulatedContent (fst (ask_event cfg now e st)))"
  by (cases st; cases e)
     (auto simp: refresh_ask_def Let_def visible_appends split: option.splits)

lemma agent_event_visible:
  "visible (accumulatedContent (fst st)) \<Longrightarrow>
   visible (accumulatedContent (fst (state_of (agent_event cfg now e st))))"
  by (cases st; cases e)
     (auto simp: refresh_agent_def Let_def visible_appends split: option.splits list.splits)

lemma visible_initial [simp]: "visible (accumulatedContent initial_vars)"
  by (simp add: visible_def initial_vars_def)

lemma ask_events_snoc: "ask_events cfg (evs @ [(now, e)]) st = ask_event cfg now e (ask_events cfg evs st)"
  by (simp add: ask_events_def)

lemma ask_events_visible:
  "visible (accumulatedContent (fst st)) \<Longrightarrow> visible (accumulatedContent (fst (ask_events cfg evs st)))"
proof (induction evs rule: rev_induct)
  case Nil
  then show ?case by (simp add: ask_events_def)
next
  case (snoc x xs)
  then show ?case
    by (cases x) (simp add: ask_events_snoc ask_event_visible)
qed

lemma agent_events_visible:
  "visible (accumulatedContent (fst st)) \<Longrightarrow>
   visible (accumulatedContent (fst (state_of (agent_events cfg evs st))))"
proof (induction evs arbitrary: st)
  case Nil
  then show ?case by simp
next
  case (Cons x xs)
  obtain now e where x: "x = (now, e)" by (cases x)
  show ?case
  proof (cases "agent_event cfg now e st")
    case (Ok st')
    with agent_event_visible [OF Cons.prems, of cfg now e] have "visible (accumulatedContent (fst st'))"
      by simp
    then show ?thesis
      using Cons.IH [of st'] Ok x by simp
  next
    case (Thrown ex st')
    with agent_event_visible [OF Cons.prems, of cfg now e] show ?thesis
      using x by simp
  qed
qed

lemma buildContent_ask_grows:
  assumes "visible (accumulatedContent v)" "visible (accumulatedContent v')"
    and "prefix (accumulatedContent v) (accumulatedContent v')"
    and "prefix (finalAnswer v) (finalAnswer v')"
  shows "length (buildContent_ask cfg v) \<le> length (buildContent_ask cfg v')"
proof -
  from assms(3) obtain x where x: "accumulatedContent v' = accumulatedContent v @ x"
    by (auto simp: prefix_def)
  from assms(4) obtain y where y: "finalAnswer v' = finalAnswer v @ y"
    by (auto simp: prefix_def)
  have "buildContent_ask cfg v
        = buildContent_ask cfg (v\<lparr>accumulatedContent := accumulatedContent v, finalAnswer := finalAnswer v\<rparr>)"
    by simp
  moreover have "buildContent_ask cfg v'
        = buildContent_ask cfg (v\<lparr>accumulatedContent := accumulatedContent v @ x, finalAnswer := finalAnswer v @ y\<rparr>)"
    by (simp add: buildContent_ask_def Let_def x y)
  ultimately show ?thesis
    using buildContent_ask_mono [where a = "accumulatedContent v" and x = x and f = "finalAnswer v"
        and y = y and v = v and cfg = cfg] assms(1,2) x
    by simp
qed

lemma buildContent_agent_grows:
  assumes "visible (accumulatedContent v)" "visible (accumulatedContent v')"
    and "prefix (accumulatedContent v) (accumulatedContent v')"
    and "prefix (finalAnswer v) (finalAnswer v')"
  shows "length (buildContent_agent cfg v) \<le> length (buildContent_agent cfg v')"
proof -
  from assms(3) obtain x where x: "accumulatedContent v' = accumulatedContent v @ x"
    by (auto simp: prefix_def)
  from assms(4) obtain y where y: "finalAnswer v' = finalAnswer v @ y"
    by (auto simp: prefix_def)
  have "buildContent_agent cfg v
        = buildContent_agent cfg (v\<lparr>accumulatedContent := accumulatedContent v, finalAnswer := finalAnswer v\<rparr>)"
    by simp
  moreover have "buildContent_agent cfg v'
        = buildContent_agent cfg (v\<lparr>accumulatedContent := accumulatedContent v @ x, finalAnswer := finalAnswer v @ y\<rparr>)"
    by (simp add: buildContent_agent_def Let_def x y)
  ultimately show ?thesis
    using buildContent_agent_mono [where a = "accumulatedContent v" and x = x and f = "finalAnswer v"
        and y = y and v = v and cfg = cfg] assms(1,2) x
    by simp
qed

text \<open>A refresh after the buffers have grown keeps the invariant and does not shrink the content.\<close>

lemma refresh_ask_step:
  assumes inv: "inv_ask cfg (v, s)"
    and vis: "visible (accumulatedContent v')"
    and pa: "prefix (accumulatedContent v) (accumulatedContent v')"
    and pf: "prefix (finalAnswer v) (finalAnswer v')"
    and ms: "messages s' = messages s"
  shows "inv_ask cfg (refresh_ask cfg (v', s')) \<and>
         active_length cfg s \<le> active_length cfg (snd (refresh_ask cfg (v', s')))"
proof -
  have g: "length (buildContent_ask cfg v) \<le> length (buildContent_ask cfg v')"
    using inv vis pa pf by (intro buildContent_ask_grows) (simp_all add: inv_ask_def)
  show ?thesis
    using inv vis g ms
    by (auto simp: inv_ask_def refresh_ask_def active_length_def last_update_last)
qed

lemma refresh_agent_step:
  assumes inv: "inv_agent cfg (v, s)"
    and vis: "visible (accumulatedContent v')"
    and pa: "prefix (accumulatedContent v) (accumulatedContent v')"
    and pf: "prefix (finalAnswer v) (finalAnswer v')"
    and ms: "messages s' = messages s"
  shows "inv_agent cfg (refresh_agent cfg (v', s')) \<and>
         active_length cfg s \<le> active_length cfg (snd (refresh_agent cfg (v', s')))"
proof -
  have g: "length (buildContent_agent cfg v) \<le> length (buildContent_agent cfg v')"
    using inv vis pa pf by (intro buildContent_agent_grows) (simp_all add: inv_agent_def)
  show ?thesis
    using inv vis g ms
    by (auto simp: inv_agent_def refresh_agent_def active_length_def last_update_last)
qed

lemma new_assistant_streaming [simp]: "is_streaming cfg (new_assistant cfg now c)"
  by (simp add: is_streaming_def new_assistant_def)

lemma content_new_assistant [simp]: "content (new_assistant cfg now c) = c"
  by (simp add: new_assistant_def)

lemma ask_append_step:
  assumes "inv_ask cfg (v, s)" "str_trim x \<noteq> []" "messages s' = messages s"
  shows "inv_ask cfg (refresh_ask cfg (v\<lparr>accumulatedContent := accumulatedContent v @ x\<rparr>, s')) \<and>
         active_length cfg s
           \<le> active_length cfg (snd (refresh_ask cfg (v\<lparr>accumulatedContent := accumulatedContent v @ x\<rparr>, s')))"
  using assms by (intro refresh_ask_step) (auto simp: inv_ask_def visible_append)

lemma ask_chunk_step:
  assumes "inv_ask cfg (v, s)" "messages s' = messages s"
  shows "inv_ask cfg (refresh_ask cfg (v\<lparr>finalAnswer := finalAnswer v @ y\<rparr>, s')) \<and>
         active_length cfg s
           \<le> active_length cfg (snd (refresh_ask cfg (v\<lparr>finalAnswer := finalAnswer v @ y\<rparr>, s')))"
  using assms by (intro refresh_ask_step) (auto simp: inv_ask_def)

lemma ask_same_step:
  assumes "inv_ask cfg (v, s)" "messages s' = messages s"
  shows "inv_ask cfg (refresh_ask cfg (v, s')) \<and>
         active_length cfg s \<le> active_length cfg (snd (refresh_ask cfg (v, s')))"
  using assms by (intro refresh_ask_step) (auto simp: inv_ask_def)

lemma ask_event_step:
  assumes inv: "inv_ask cfg st" and g: "growing_ask e"
  shows "inv_ask cfg (ask_event cfg now e st) \<and>
         active_length cfg (snd st) \<le> active_length cfg (snd (ask_event cfg now e st))"
proof -
  obtain v s where st: "st = (v, s)" by (cases st)
  note inv' = inv [unfolded st]
  show ?thesis
  proof (cases e)
    case (Ai_response c)
    then show ?thesis
      using inv' st by (auto simp: inv_ask_def active_length_def Let_def)
  next
    case (Sql_query c)
    then show ?thesis
      using ask_append_step [OF inv' visible_blocks(1)] st by simp
  next
    case (Step_indicator c)
    then show ?thesis
      using ask_append_step [OF inv' visible_step_block] st by simp
  next
    case (Brief_reasoning c)
    then show ?thesis
      using ask_append_step [OF inv' visible_blocks(3)] st by simp
  next
    case (Sql_result r)
    then show ?thesis
      using ask_append_step [OF inv' visible_blocks(4)] ask_same_step [OF inv'] st
      by (simp split: option.splits)
  next
    case (Final_answer_chunk c)
    then show ?thesis
      using ask_chunk_step [OF inv'] st by simp
  next
    case (Chart_config c)
    then show ?thesis
      using ask_append_step [OF inv' visible_blocks(5)] st by simp
  next
    case Graph_decision
    then show ?thesis
      using ask_same_step [OF inv'] st by simp
  qed (use g inv' st in \<open>auto simp: inv_ask_def active_length_def\<close>)
qed

lemma agent_append_step:
  assumes "inv_agent cfg (v, s)" "str_trim x \<noteq> []" "messages s' = messages s"
  shows "inv_agent cfg (refresh_agent cfg (v\<lparr>accumulatedContent := accumulatedContent v @ x\<rparr>, s')) \<and>
         active_length cfg s
           \<le> active_length cfg (snd (refresh_agent cfg (v\<lparr>accumulatedContent := accumulatedContent v @ x\<rparr>, s')))"
  using assms by (intro refresh_agent_step) (auto simp: inv_agent_def visible_append)

lemma agent_chunk_step:
  assumes "inv_agent cfg (v, s)" "messages s' = messages s"
  shows "inv_agent cfg (refresh_agent cfg (v\<lparr>finalAnswer := finalAnswer v @ y\<rparr>, s')) \<and>
         active_length cfg s
           \<le> active_length cfg (snd (refresh_agent cfg (v\<lparr>finalAnswer := finalAnswer v @ y\<rparr>, s')))"
  using assms by (intro refresh_agent_step) (auto simp: inv_agent_def)

lemma agent_same_step:
  assumes "inv_agent cfg (v, s)" "messages s' = messages s"
  shows "inv_agent cfg (refresh_agent cfg (v, s')) \<and>
         active_length cfg s \<le> active_length cfg (snd (refresh_agent cfg (v, s')))"
  using assms by (intro refresh_agent_step) (auto simp: inv_agent_def)

lemma agent_event_step:
  assumes inv: "inv_agent cfg st" and g: "growing_agent e"
  shows "\<exists>st'. agent_event cfg now e st = Ok st' \<and> inv_agent cfg st' \<and>
           active_length cfg (snd st) \<le> active_length cfg (snd st')"
proof -
  obtain v s where st: "st = (v, s)" by (cases st)
  note inv' = inv [unfolded st]
  show ?thesis
  proof (cases e)
    case (Ai_response c)
    then show ?thesis
      using inv' st by (auto simp: inv_agent_def active_length_def Let_def)
  next
    case (Sql_query c)
    then show ?thesis
      using agent_append_step [OF inv' visible_blocks(2)] st by simp
  next
    case (Step_indicator c)
    then show ?thesis
      using agent_append_step [OF inv' visible_step_block] st by simp
  next
    case (Brief_reasoning c)
    then show ?thesis
      using agent_append_step [OF inv' visible_blocks(3)] st by simp
  next
    case (Sql_result r)
    then show ?thesis
      using agent_append_step [OF inv' visible_blocks(4)] agent_append_step [OF inv' visible_blocks(6)]
        agent_same_step [OF inv'] st
      by (simp split: option.splits list.splits)
  next
    case (Final_answer_chunk c)
    then show ?thesis
      using agent_chunk_step [OF inv'] st by simp
  next
    case (Chart_config c)
    then show ?thesis
      using agent_append_step [OF inv' visible_blocks(5)] st by simp
  qed (use g inv' st in \<open>auto simp: inv_agent_def active_length_def\<close>)
qed

lemma ask_events_inv:
  "inv_ask cfg st \<Longrightarrow> list_all (\<lambda>x. growing_ask (snd x)) evs \<Longrightarrow> inv_ask cfg (ask_events cfg evs st)"
proof (induction evs rule: rev_induct)
  case Nil
  then show ?case by (simp add: ask_events_def)
next
  case (snoc x xs)
  then show ?case
    by (cases x) (simp add: ask_events_snoc ask_event_step)
qed

lemma agent_events_append:
  "agent_events cfg (xs @ ys) st =
     (case agent_events cfg xs st of Ok st' \<Rightarrow> agent_events cfg ys st' | Thrown x st' \<Rightarrow> Thrown x st')"
  by (induction xs arbitrary: st) (auto split: outcome.splits)

lemma agent_events_inv:
  "inv_agent cfg st \<Longrightarrow> list_all (\<lambda>x. growing_agent (snd x)) evs \<Longrightarrow>
   \<exists>st'. agent_events cfg evs st = Ok st' \<and> inv_agent cfg st'"
proof (induction evs arbitrary: st)
  case Nil
  then show ?case by simp
next
  case (Cons x xs)
  obtain now e where x: "x = (now, e)" by (cases x)
  from Cons.prems x have "growing_agent e" by simp
  with agent_event_step [OF Cons.prems(1)] obtain st1
    where "agent_event cfg now e st = Ok st1" "inv_agent cfg st1"
    by blast
  with Cons.IH [of st1] Cons.prems(2) x show ?case
    by simp
qed

lemma inv_start:
  "messages s0 = [] \<or> \<not> is_streaming cfg (last (messages s0)) \<Longrightarrow>
   inv_ask cfg (initial_vars, s0) \<and> inv_agent cfg (initial_vars, s0)"
  by (auto simp: inv_ask_def inv_agent_def)

lemma rewrite_ask:
  assumes "visible (accumulatedContent v)"
  shows "rewrites_final_answer_only (buildContent_ask cfg) v (v\<lparr>finalAnswer := t\<rparr>) t"
proof -
  let ?v = "v\<lparr>finalAnswer := t\<rparr>"
  have vis: "visible (accumulatedContent ?v)"
    using assms by simp
  have "prefix (accumulatedContent v) (buildContent_ask cfg ?v)"
    using buildContent_ask_prefix [OF vis] by simp
  moreover have "suffix t (buildContent_ask cfg ?v)"
    using buildContent_ask_suffix [of ?v cfg] by simp
  moreover have "t = [] \<longrightarrow> buildContent_ask cfg ?v = accumulatedContent v"
    by (simp add: buildContent_ask_def)
  ultimately show ?thesis
    using buildContent_ask_prefix [OF assms] by (simp add: rewrites_final_answer_only_def)
qed

lemma rewrite_agent:
  assumes "visible (accumulatedContent v)"
  shows "rewrites_final_answer_only (buildContent_agent cfg) v (v\<lparr>finalAnswer := t\<rparr>) t"
proof -
  let ?v = "v\<lparr>finalAnswer := t\<rparr>"
  have vis: "visible (accumulatedContent ?v)"
    using assms by simp
  have "prefix (accumulatedContent v) (buildContent_agent cfg ?v)"
    using buildContent_agent_prefix [OF vis] by simp
  moreover have "suffix t (buildContent_agent cfg ?v)"
    using buildContent_agent_suffix [of ?v cfg] by simp
  moreover have "t = [] \<longrightarrow> buildContent_agent cfg ?v = accumulatedContent v"
    by (simp add: buildContent_agent_def)
  ultimately show ?thesis
    using buildContent_agent_prefix [OF assms] by (simp add: rewrites_final_answer_only_def)
qed

lemma includes_after_append: "str_includes addition probe \<Longrightarrow> str_includes (c @ addition) probe"
  by (auto simp: str_includes_def sublist_append)

lemma append_unless_included_idem:
  "str_includes addition probe \<Longrightarrow>
   append_unless_included probe addition (append_unless_included probe addition c)
     = append_unless_included probe addition c"
  by (simp add: append_unless_included_def includes_after_append)

lemma update_last_idem:
  assumes "\<And>m c. g (m\<lparr>content := c\<rparr>) = g m" and "\<And>c. f (f c) = f c"
  shows "update_last g f (update_last g f ms) = update_last g f ms"
  using update_last_twice [of g f f ms, OF assms(1)] assms(2) by (simp add: comp_def)

lemma includes_self [simp]: "str_includes c c"
  by (simp add: str_includes_def)

lemma includes_middle [simp]: "str_includes (a @ c @ b) c"
  by (simp add: str_includes_def)

lemma example_start:
  "messages example_sent = [] \<or> \<not> is_streaming example_ask_config (last (messages example_sent))"
  "messages example_sent = [] \<or> \<not> is_streaming example_config (last (messages example_sent))"
  by (simp_all add: example_sent_def handleSendMessage_begin_def example_user_message_def
      is_streaming_def example_ask_config_def example_config_def js_def)

section \<open>Decoding a stream\<close>

lemma process_lines_append:
  "process_lines parse onChunk (xs @ ys) st =
     (case process_lines parse onChunk xs st of
        Ok st' \<Rightarrow> process_lines parse onChunk ys st'
      | Thrown e st' \<Rightarrow> Thrown e st')"
  by (induction xs arbitrary: st) (auto split: option.splits outcome.splits)

lemma process_lines_bad:
  "str_startsWith bad (js ''data: '') \<Longrightarrow> parse (drop 6 bad) = None \<Longrightarrow>
   process_lines parse onChunk (bad # rest) st = Thrown SyntaxError st"
  by simp

lemma str_split_not_Nil [simp]: "str_split s \<noteq> []"
  by (induction s) (auto split: list.splits)

lemma str_split_append_nl: "str_split (a @ 0x0A # b) = str_split a @ str_split b"
  by (induction a) (auto split: list.splits)

lemma empty_line_skipped [simp]: "\<not> str_startsWith [] (js ''data: '')"
  by (simp add: str_startsWith_def js_def)

lemma process_chunk_split:
  assumes "a = [] \<or> last a = 0x0A"
  shows "process_chunk parse onChunk (a @ b) st =
     (case process_chunk parse onChunk a st of
        Ok st' \<Rightarrow> process_chunk parse onChunk b st'
      | Thrown e st' \<Rightarrow> Thrown e st')"
proof (cases "a = []")
  case True
  then show ?thesis
    by (simp add: process_chunk_def)
next
  case False
  with assms obtain a' where a: "a = a' @ [0x0A]"
    by (metis append_butlast_last_id)
  have 1: "str_split (a @ b) = str_split a' @ str_split b"
    using str_split_append_nl [of a' b] a by simp
  have 2: "str_split a = str_split a' @ [[]]"
    using str_split_append_nl [of a' "[]"] a by simp
  show ?thesis
    unfolding process_chunk_def 1 2
    by (simp add: process_lines_append split: outcome.splits)
qed

lemma decode_chunks_from_append:
  "decode_chunks_from parse (xs @ ys) ds =
     (case decode_chunks_from parse xs ds of
        Ok ds' \<Rightarrow> decode_chunks_from parse ys ds'
      | Thrown e ds' \<Rightarrow> Thrown e ds')"
  by (induction xs arbitrary: ds) (auto split: outcome.splits)

lemma collecting_throws_SyntaxError:
  "process_lines parse (\<lambda>d ds. Ok (ds @ [d])) ls ds = Thrown e ds' \<Longrightarrow> e = SyntaxError"
  by (induction ls arbitrary: ds) (auto split: if_splits option.splits)

lemma process_chunk_bad:
  assumes "str_split chunk = before @ bad # rest"
    and "str_startsWith bad (js ''data: '')" and "parse (drop 6 bad) = None"
  shows "process_chunk parse onChunk chunk st =
           (case process_lines parse onChunk before st of
              Ok st1 \<Rightarrow> Thrown SyntaxError st1
            | Thrown e st1 \<Rightarrow> Thrown e st1)"
  using assms by (simp add: process_chunk_def process_lines_append split: outcome.splits)

text \<open>
  In the loop the error of such a line ends the stream function: it is rethrown by the
  \<open>catch\<close> around the loop unless the signal has been aborted, whatever would have been
  read afterwards.
\<close>

lemma malformed_line_ends_loop:
  assumes "str_split chunk = before @ bad # rest"
    and "str_startsWith bad (js ''data: '')" and "parse (drop 6 bad) = None"
    and "process_lines parse (onChunk now) before st = Ok st1"
  shows "await_read sig parse onChunk (Read (Chunk now chunk) # ts) st =
     (if signal_aborted sig (snd st1) then (Returned, st1) else (Raised SyntaxError, st1))"
  using process_chunk_bad [where onChunk = "onChunk now" and st = st and parse = parse
      and before = before and bad = bad and rest = rest and chunk = chunk, OF assms(1-3)] assms(4)
  by (cases st1) simp

text \<open>
  C2, as the code has it. When a line of a chunk starts with \<open>data: \<close> and its rest is
  not JSON, \<open>JSON.parse\<close> throws inside the loop: the callback has been called for the
  lines before it, the rest of the chunk is not looked at, and, for the events a stream
  yields, the chunks after it are not decoded either; the result is the
  \<open>SyntaxError\<close>.
\<close>

theorem malformed_line_throws:
  assumes "str_split chunk = before @ bad # rest"
    and "str_startsWith bad (js ''data: '')" and "parse (drop 6 bad) = None"
  shows "process_chunk parse onChunk chunk st =
           (case process_lines parse onChunk before st of
              Ok st1 \<Rightarrow> Thrown SyntaxError st1
            | Thrown e st1 \<Rightarrow> Thrown e st1)
         \<and> decode_stream parse (earlier @ chunk # later) =
           (case decode_stream parse earlier of
              Ok ds \<Rightarrow> Thrown SyntaxError (state_of (process_lines parse (\<lambda>d ds. Ok (ds @ [d])) before ds))
            | Thrown e ds \<Rightarrow> Thrown e ds)"
proof
  show "process_chunk parse onChunk chunk st =
           (case process_lines parse onChunk before st of
              Ok st1 \<Rightarrow> Thrown SyntaxError st1
            | Thrown e st1 \<Rightarrow> Thrown e st1)"
    using assms by (rule process_chunk_bad [where before = before and bad = bad and rest = rest and parse = parse])
  have "process_chunk parse (\<lambda>d ds. Ok (ds @ [d])) chunk ds
          = Thrown SyntaxError (state_of (process_lines parse (\<lambda>d ds. Ok (ds @ [d])) before ds))" for ds
    unfolding process_chunk_bad [where before = before and bad = bad and rest = rest and parse = parse, OF assms]
    by (auto split: outcome.splits dest: collecting_throws_SyntaxError)
  then show "decode_stream parse (earlier @ chunk # later) =
           (case decode_stream parse earlier of
              Ok ds \<Rightarrow> Thrown SyntaxError (state_of (process_lines parse (\<lambda>d ds. Ok (ds @ [d])) before ds))
            | Thrown e ds \<Rightarrow> Thrown e ds)"
    by (simp add: decode_stream_def decode_chunks_from_append split: outcome.splits)
qed

lemma example_malformed_split:
  "str_split example_malformed_chunk =
     [] @ js ''data: {not json'' # [js ''data: {\"type\":\"loading\",\"content\":\"Processing...\"}'']"
  by (simp add: example_malformed_chunk_def js_def)

lemma not_json: "JSON_parse (drop 6 (js ''data: {not json'')) = None"
  by code_simp

theorem malformed_line_throws_witness:
  "str_startsWith (js ''data: {not json'') (js ''data: '')
   \<and> JSON_parse (drop 6 (js ''data: {not json'')) = None
   \<and> decode_stream JSON_parse ([] @ example_malformed_chunk # [js ''data: 1'']) = Thrown SyntaxError []"
proof -
  have p: "str_startsWith (js ''data: {not json'') (js ''data: '')"
    by (simp add: str_startsWith_def js_def)
  from malformed_line_throws [where chunk = example_malformed_chunk and before = "[]"
      and bad = "js ''data: {not json''" and parse = JSON_parse and earlier = "[]"
      and later = "[js ''data: 1'']", OF example_malformed_split p not_json, THEN conjunct2]
    p not_json
  show ?thesis
    by (simp add: decode_stream_def)
qed

text \<open>
  The claim C2 fails on its own scenario: the chunk with the malformed line yields no event
  and throws, although the \<open>loading\<close> line alone decodes to one event.
\<close>

theorem malformed_line_counterexample:
  "decode_chunk JSON_parse example_malformed_chunk = Thrown SyntaxError []
   \<and> decode_chunk JSON_parse (js ''data: {\"type\":\"loading\",\"content\":\"Processing...\"}'')
       = Ok [example_loading_event]"
  by code_simp

section \<open>Chunk boundaries\<close>

lemma decode_chunks_from_single:
  "decode_chunks_from parse [c] ds = process_chunk parse (\<lambda>d ds. Ok (ds @ [d])) c ds"
  by (simp split: outcome.splits)

text \<open>
  C3, as the code has it. No text is carried from one chunk to the next. When every chunk
  but the last is empty or ends with a line feed, the chunks decode to the same events, and
  throw alike, as their concatenation decoded as one chunk.
\<close>

theorem chunks_split_at_line_ends:
  assumes "\<forall>c \<in> set (butlast chunks). c = [] \<or> last c = 0x0A"
  shows "decode_stream parse chunks = decode_stream parse [concat chunks]"
proof -
  have "decode_chunks_from parse chunks ds = decode_chunks_from parse [concat chunks] ds" for ds
    using assms
  proof (induction chunks arbitrary: ds)
    case Nil
    then show ?case
      by (simp add: process_chunk_def)
  next
    case (Cons c cs)
    show ?case
    proof (cases "cs = []")
      case True
      then show ?thesis by simp
    next
      case False
      with Cons.prems have c: "c = [] \<or> last c = 0x0A"
        and rest: "\<forall>c \<in> set (butlast cs). c = [] \<or> last c = 0x0A"
        by simp_all
      have "decode_chunks_from parse [c @ concat cs] ds =
              (case process_chunk parse (\<lambda>d ds. Ok (ds @ [d])) c ds of
                 Ok ds' \<Rightarrow> process_chunk parse (\<lambda>d ds. Ok (ds @ [d])) (concat cs) ds'
               | Thrown e ds' \<Rightarrow> Thrown e ds')"
        unfolding decode_chunks_from_single by (rule process_chunk_split [OF c])
      also have "\<dots> = (case process_chunk parse (\<lambda>d ds. Ok (ds @ [d])) c ds of
                 Ok ds' \<Rightarrow> decode_chunks_from parse cs ds'
               | Thrown e ds' \<Rightarrow> Thrown e ds')"
        using Cons.IH [OF rest] by (simp add: decode_chunks_from_single split: outcome.splits)
      finally show ?thesis
        by simp
    qed
  qed
  then show ?thesis
    by (simp add: decode_stream_def)
qed

theorem chunks_split_at_line_ends_witness:
  "butlast [js ''data: 1\<newline>'', js ''data: 2\<newline>data: 3''] = [js ''data: 1\<newline>'']
   \<and> last (js ''data: 1\<newline>'') = 0x0A
   \<and> decode_stream JSON_parse [js ''data: 1\<newline>'', js ''data: 2\<newline>data: 3'']
       = decode_stream JSON_parse [concat [js ''data: 1\<newline>'', js ''data: 2\<newline>data: 3'']]"
proof -
  have l: "last (js ''data: 1\<newline>'') = 0x0A"
    by (simp add: js_def)
  have h: "\<forall>c \<in> set (butlast [js ''data: 1\<newline>'', js ''data: 2\<newline>data: 3'']). c = [] \<or> last c = 0x0A"
    using l by simp
  from chunks_split_at_line_ends [OF h, of JSON_parse] l show ?thesis
    by simp
qed

text \<open>
  The claim C3 fails for a boundary inside a line: the first half of the \<open>loading\<close> line
  is not JSON, so decoding the two chunks throws with no event, while the whole text
  decodes to the event.
\<close>

theorem split_line_counterexample:
  "decode_stream JSON_parse [example_first_half, example_second_half] = Thrown SyntaxError []
   \<and> decode_stream JSON_parse [example_first_half @ example_second_half] = Ok [example_loading_event]"
  by code_simp

section \<open>Stopping while a confirmation is pending\<close>

lemma handleSendMessage_end_clears_controller:
  "abortControllerRef (handleSendMessage_end mid now message_of thrown s) = None"
  by (simp add: handleSendMessage_end_def Let_def split: option.splits)

lemma b64_example_sql: "btoa (js ''DELETE FROM t'') = Some (js ''REVMRVRFIEZST00gdA=='')"
  by (simp add: btoa_def js_def b64_char_def b64_alphabet_def)

lemma b64_example_message: "btoa (js ''Remove rows'') = Some (js ''UmVtb3ZlIHJvd3M='')"
  by (simp add: btoa_def js_def b64_char_def b64_alphabet_def)

lemma example_awaiting_pending:
  "pendingOperation example_awaiting =
     Some \<lparr>operation = js ''DELETE'', sql = js ''DELETE FROM t'', explanation = js ''Remove rows'',
           op_model = js ''gemini-2.5-flash''\<rparr>"
  by (simp add: example_awaiting_def handleSendMessage_end_def handleSendMessage_begin_def
      example_config_def example_confirmation_def empty_session_def initial_vars_def
      b64_example_sql b64_example_message Let_def)

text \<open>
  C9, as the code has it. \<open>handleStopGeneration\<close> acts only on a stored controller. When
  none is stored, which is the case whenever no stream of \<open>handleSendMessage\<close> is open, a
  stop returns the state exactly as it was: nothing is refused, nothing is queued, and the
  pending operation stays. With a controller stored it aborts that stream and still leaves
  the pending operation alone.
\<close>

theorem stop_without_stream_is_noop:
  "(abortControllerRef s = None \<longrightarrow> handleStopGeneration s = s)
   \<and> pendingOperation (handleStopGeneration s) = pendingOperation s"
  by (simp add: handleStopGeneration_def split: option.splits)

theorem stop_without_stream_is_noop_witness:
  "abortControllerRef example_awaiting = None
   \<and> handleStopGeneration example_awaiting = example_awaiting
   \<and> pendingOperation (handleStopGeneration example_awaiting) = pendingOperation example_awaiting"
proof -
  have ref: "abortControllerRef example_awaiting = None"
    unfolding example_awaiting_def by (rule handleSendMessage_end_clears_controller)
  with stop_without_stream_is_noop [of example_awaiting] show ?thesis
    by simp
qed

text \<open>
  The claim C9 fails: in the worked session a confirmation is pending and no stream is
  open, and a stop changes nothing and leaves the pending operation in place.
\<close>

theorem stop_while_awaiting_counterexample:
  "pendingOperation example_awaiting \<noteq> None
   \<and> abortControllerRef example_awaiting = None
   \<and> handleStopGeneration example_awaiting = example_awaiting"
proof -
  have ref: "abortControllerRef example_awaiting = None"
    unfolding example_awaiting_def by (rule handleSendMessage_end_clears_controller)
  have "pendingOperation example_awaiting \<noteq> None"
    by (simp add: example_awaiting_pending)
  moreover have "handleStopGeneration example_awaiting = example_awaiting"
    by (simp add: handleStopGeneration_def ref)
  ultimately show ?thesis
    using ref by simp
qed

section \<open>Which messages a handler touches\<close>

lemma js_eq_Nil [simp]: "js s = [] \<longleftrightarrow> s = []"
  by (simp add: js_def)

lemma frame_kept_same [simp]: "frame_kept guard ms ms"
  by (cases ms rule: rev_cases) (simp_all add: frame_kept_def)

lemma frame_kept_snoc [simp]: "frame_kept guard ms (ms @ [m])"
  by (cases ms rule: rev_cases) (simp_all add: frame_kept_def nth_append)

lemma frame_kept_update_last:
  "(\<And>m. g m \<Longrightarrow> guard m) \<Longrightarrow> frame_kept guard ms (update_last g f ms)"
  by (cases ms rule: rev_cases) (auto simp: frame_kept_def update_last_def nth_append)

lemma frame_kept_refresh_ask [simp]:
  "frame_kept (is_streaming cfg) (messages s) (messages (snd (refresh_ask cfg (v, s'\<lparr>messages := messages s\<rparr>))))"
  by (simp add: refresh_ask_def frame_kept_update_last)

lemma example_awaiting_messages:
  "messages example_awaiting =
     [example_user_message,
      new_assistant example_config (js ''10:00'')
        (confirmationContent (js ''gemini-2.5-flash'') example_confirmation
           (js ''REVMRVRFIEZST00gdA=='') (js ''UmVtb3ZlIHJvd3M=''))]"
proof -
  have "\<not> is_streaming example_config example_user_message"
    by (simp add: is_streaming_def example_config_def example_user_message_def js_def)
  moreover have "conf_sql example_confirmation = js ''DELETE FROM t''"
    "conf_message example_confirmation = js ''Remove rows''"
    "selectedModel example_config = js ''gemini-2.5-flash''"
    by (simp_all add: example_confirmation_def example_config_def)
  ultimately show ?thesis
    by (simp add: example_awaiting_def handleSendMessage_end_def handleSendMessage_begin_def
        empty_session_def b64_example_sql b64_example_message Let_def)
qed

lemma example_awaiting_last_assistant:
  "messages example_awaiting \<noteq> [] \<and> is_assistant (last (messages example_awaiting))"
  by (simp add: example_awaiting_messages is_assistant_def new_assistant_def)

text \<open>
  C10, as the code has it. Every handler of the ask stream and of the agent stream keeps
  the frame: it changes at most the content of the last message, and only when that message
  is the streaming one (for the agent's \<open>cancelled\<close>, when its role is assistant), and it
  may append a message. In the confirmation round every handler keeps the frame for the
  last message with role assistant, except \<open>confirmation_required\<close> when it reloads the
  conversation: that one empties the list.
\<close>

theorem handlers_keep_earlier_messages:
  "frame_kept (is_streaming cfg) (messages s) (messages (snd (ask_event cfg now e (v, s))))
   \<and> frame_kept (\<lambda>m. is_streaming cfg m \<or> e = Cancelled \<and> is_assistant m) (messages s)
        (messages (snd (state_of (agent_event cfg now e (v, s)))))
   \<and> (if reloads_conversation cf e then messages (confirm_event cf e s) = []
       else frame_kept is_assistant (messages s) (messages (confirm_event cf e s)))"
proof (intro conjI)
  show "frame_kept (is_streaming cfg) (messages s) (messages (snd (ask_event cfg now e (v, s))))"
    by (cases e) (auto simp: refresh_ask_def Let_def frame_kept_update_last split: option.splits)
  show "frame_kept (\<lambda>m. is_streaming cfg m \<or> e = Cancelled \<and> is_assistant m) (messages s)
        (messages (snd (state_of (agent_event cfg now e (v, s)))))"
    by (cases e)
       (auto simp: refresh_agent_def Let_def frame_kept_update_last split: option.splits list.splits)
  show "if reloads_conversation cf e then messages (confirm_event cf e s) = []
       else frame_kept is_assistant (messages s) (messages (confirm_event cf e s))"
    by (cases e)
       (auto simp: reloads_conversation_def loadConversation_begin_def Let_def frame_kept_update_last
          split: option.splits)
qed

theorem handlers_keep_earlier_messages_witness:
  "frame_kept (is_streaming example_ask_config) (messages example_sent)
     (messages (snd (ask_event example_ask_config (js ''10:01'') (Sql_query (js ''SELECT 1''))
        (initial_vars, example_sent))))
   \<and> frame_kept is_assistant (messages example_awaiting)
        (messages (confirm_event example_round_config (Sql_query (js ''SELECT 1'')) example_awaiting))"
  using handlers_keep_earlier_messages [where cfg = example_ask_config and s = example_sent
      and now = "js ''10:01''" and e = "Sql_query (js ''SELECT 1'')" and v = initial_vars
      and cf = example_round_config]
    handlers_keep_earlier_messages [where cfg = example_ask_config and s = example_awaiting
      and now = "js ''10:01''" and e = "Sql_query (js ''SELECT 1'')" and v = initial_vars
      and cf = example_round_config]
  by (simp add: reloads_conversation_def)

text \<open>
  The claim C10 fails for that handler: in the worked session the user's message is in the
  list, and after \<open>confirmation_required\<close> has been handled in the confirmation round the
  list is empty.
\<close>

theorem reload_counterexample:
  "example_user_message \<in> set (messages example_awaiting)
   \<and> messages (confirm_event example_round_config (Confirmation_required example_confirmation)
        example_awaiting) = []"
  by (simp add: example_awaiting_messages example_round_config_def no_conversation_def
      loadConversation_begin_def Let_def)

section \<open>How a result is classified\<close>

text \<open>
  C8, as the code has it, for a successful result. The ask handler writes the row block
  whatever the payload holds. The agent handler writes the row block only for a data array
  that is not empty, and the mutation line when data is missing or empty. The confirmation
  round writes its mutation line when it has an operation and the payload has a row count and
  no data, and otherwise its row block, also for an empty data array.
\<close>

theorem sql_result_classification:
  "(success r = Some True \<longrightarrow>
      accumulatedContent (fst (ask_event cfg now (Sql_result (Some r)) (v, s)))
        = accumulatedContent v @ query_result_block (stringify cfg) r)
   \<and> (success r = Some True \<longrightarrow>
      accumulatedContent (fst (state_of (agent_event cfg now (Sql_result (Some r)) (v, s))))
        = accumulatedContent v
            @ (if data r = None \<or> data r = Some [] then mutation_result_line r
               else query_result_block (stringify cfg) r))
   \<and> (success r = Some True \<and> messages s \<noteq> [] \<and> is_assistant (last (messages s)) \<longrightarrow>
      content (last (messages (confirm_event cf (Sql_result (Some r)) s)))
        = (if cf_operation cf \<noteq> [] \<and> row_count r \<noteq> None \<and> data r = None
           then append_unless_included (confirm_result_text cf (the (row_count r)))
                  (js ''\<newline>\<newline>'' @ confirm_result_text cf (the (row_count r)))
                  (content (last (messages s)))
           else append_unless_included (confirm_query_result cf r) (confirm_query_result cf r)
                  (content (last (messages s)))))"
  by (auto simp: refresh_ask_def refresh_agent_def Let_def last_update_last split: list.splits)

theorem sql_result_classification_witness:
  "success example_empty_result = Some True
   \<and> messages example_awaiting \<noteq> [] \<and> is_assistant (last (messages example_awaiting))
   \<and> accumulatedContent (fst (state_of (agent_event example_config (js ''10:01'')
        (Sql_result (Some example_empty_result)) (initial_vars, example_sent))))
      = accumulatedContent initial_vars @ mutation_result_line example_empty_result
   \<and> content (last (messages (confirm_event example_round_config
        (Sql_result (Some example_empty_result)) example_awaiting)))
      = append_unless_included (confirm_query_result example_round_config example_empty_result)
          (confirm_query_result example_round_config example_empty_result)
          (content (last (messages example_awaiting)))"
proof -
  have h: "success example_empty_result = Some True" "data example_empty_result = Some []"
    by (simp_all add: example_empty_result_def)
  from sql_result_classification [where r = example_empty_result and cfg = example_config
      and now = "js ''10:01''" and v = initial_vars and s = example_sent]
    sql_result_classification [where r = example_empty_result and cf = example_round_config
      and s = example_awaiting]
    h example_awaiting_last_assistant
  show ?thesis
    by simp
qed

text \<open>
  The claim C8 fails in the agent stream: a successful payload whose data is the empty array
  is written as a mutation line.
\<close>

theorem empty_data_counterexample:
  "accumulatedContent (fst (state_of (agent_event example_config (js ''10:01'')
      (Sql_result (Some example_empty_result)) (initial_vars, example_sent))))
   = js ''\<newline>**'' @ emoji_check @ js '' Result:** 0 row(s) affected''"
  by (simp add: example_empty_result_def initial_vars_def refresh_agent_def mutation_result_line_def
      show_count_def show_int_def js_def)

section \<open>Growth of the streamed content\<close>

text \<open>
  C4, as the code has it. From the start of a stream (the buffers empty, the last message
  not yet the streaming one), as long as every event is of a growing kind, the length of
  the active message's content does not decrease at any step, in ask mode and in agent
  mode; in agent mode no such event throws.
\<close>

theorem growth_without_rewrites:
  assumes start: "messages s0 = [] \<or> \<not> is_streaming cfg (last (messages s0))"
  shows "(list_all (\<lambda>x. growing_ask (snd x)) (evs @ [(now, e)]) \<longrightarrow>
            active_length cfg (snd (ask_events cfg evs (initial_vars, s0)))
              \<le> active_length cfg (snd (ask_events cfg (evs @ [(now, e)]) (initial_vars, s0))))
       \<and> (list_all (\<lambda>x. growing_agent (snd x)) (evs @ [(now, e)]) \<longrightarrow>
            (\<exists>st st'. agent_events cfg evs (initial_vars, s0) = Ok st
               \<and> agent_events cfg (evs @ [(now, e)]) (initial_vars, s0) = Ok st'
               \<and> active_length cfg (snd st) \<le> active_length cfg (snd st')))"
proof (intro conjI impI)
  assume g: "list_all (\<lambda>x. growing_ask (snd x)) (evs @ [(now, e)])"
  then have "inv_ask cfg (ask_events cfg evs (initial_vars, s0))"
    using inv_start [OF start] by (intro ask_events_inv) simp_all
  with g show "active_length cfg (snd (ask_events cfg evs (initial_vars, s0)))
         \<le> active_length cfg (snd (ask_events cfg (evs @ [(now, e)]) (initial_vars, s0)))"
    by (simp add: ask_events_snoc ask_event_step)
next
  assume g: "list_all (\<lambda>x. growing_agent (snd x)) (evs @ [(now, e)])"
  then obtain st where st: "agent_events cfg evs (initial_vars, s0) = Ok st" "inv_agent cfg st"
    using inv_start [OF start] agent_events_inv [of cfg "(initial_vars, s0)" evs] by auto
  from g have "growing_agent e" by simp
  with agent_event_step [OF st(2)] obtain st' where
    "agent_event cfg now e st = Ok st'" "active_length cfg (snd st) \<le> active_length cfg (snd st')"
    by blast
  with st show "\<exists>st st'. agent_events cfg evs (initial_vars, s0) = Ok st
       \<and> agent_events cfg (evs @ [(now, e)]) (initial_vars, s0) = Ok st'
       \<and> active_length cfg (snd st) \<le> active_length cfg (snd st')"
    by (simp add: agent_events_append)
qed

theorem growth_without_rewrites_witness:
  "(messages example_sent = [] \<or> \<not> is_streaming example_ask_config (last (messages example_sent)))
   \<and> list_all (\<lambda>x. growing_ask (snd x)) (example_events @ [(js ''10:01'', Final_answer_chunk (js ''answer is 1.''))])
   \<and> active_length example_ask_config (snd (ask_events example_ask_config example_events (initial_vars, example_sent)))
       \<le> active_length example_ask_config
            (snd (ask_events example_ask_config
               (example_events @ [(js ''10:01'', Final_answer_chunk (js ''answer is 1.''))])
               (initial_vars, example_sent)))"
  using growth_without_rewrites [OF example_start(1), of example_events "js ''10:01''"
      "Final_answer_chunk (js ''answer is 1.'')"] example_start(1)
  by (simp add: example_events_def)

text \<open>
  The claim C4 fails for \<open>analyzing\<close>: the indicator it writes after the composed
  content is gone at the next event, here a first chunk of the final answer, and the
  content is shorter than before although no \<open>final_answer_complete\<close> was applied.
\<close>

theorem growth_after_analyzing_counterexample:
  "active_length example_ask_config
     (snd (ask_events example_ask_config
        (example_shrinking @ [(js ''10:01'', Final_answer_chunk (js ''Done''))]) (initial_vars, example_sent)))
   < active_length example_ask_config
       (snd (ask_events example_ask_config example_shrinking (initial_vars, example_sent)))"
  by (simp add: ask_events_def example_shrinking_def example_ask_config_def example_sent_def
      handleSendMessage_begin_def initial_vars_def buildContent_ask_def update_last_def new_assistant_def is_streaming_def
      example_user_message_def empty_session_def active_length_def refresh_ask_def Let_def
      str_includes_def str_trim_def emoji_brain_def emoji_bulb_def js_def)

section \<open>The replacements of a directive\<close>

lemma tag_open_length [simp]: "length tag_open = 15"
  by (simp add: tag_open_def)

lemma directive_as_match:
  "js ''\<newline>\<newline>'' @ confirmation_tag opn sql64 msg64 mdl
     = tag_open @ tag_attributes opn sql64 msg64 mdl @ [0x2F, 0x3E]"
  by (simp add: confirmation_tag_def tag_open_def tag_attributes_def js_def)

lemma confirmationContent_parts:
  "confirmationContent mdl c sql64 msg64
     = confirmation_intro c @ warning_text @ js ''\<newline>\<newline>'' @ confirmation_tag (conf_operation c) sql64 msg64 mdl"
  by (simp add: confirmationContent_def confirmation_intro_def)

lemma takeWhile_all: "\<forall>x \<in> set xs. P x \<Longrightarrow> takeWhile P (xs @ ys) = xs @ takeWhile P ys"
  by (induction xs) auto

lemma match_tag_full:
  assumes "0x3E \<notin> set attrs" "attrs \<noteq> []"
  shows "match_tag (tag_open @ attrs @ [0x2F, 0x3E] @ rest) = Some (length tag_open + length attrs + 2)"
proof -
  have "takeWhile (\<lambda>c. c \<noteq> 0x3E) (attrs @ [0x2F, 0x3E] @ rest) = attrs @ [0x2F]"
    using assms(1) by (subst takeWhile_all) auto
  moreover have "Suc 0 \<le> length attrs"
    using assms(2) by (cases attrs) simp_all
  ultimately show ?thesis
    by (simp add: match_tag_def Let_def)
qed

lemma match_tag_prefix: "match_tag s = Some n \<Longrightarrow> prefix tag_open s"
  by (simp add: match_tag_def split: if_splits)

lemma match_tag_pos: "match_tag s = Some n \<Longrightarrow> 0 < n"
  by (auto simp: match_tag_def Let_def split: if_splits)

lemma strip_tags_at_match: "match_tag s = Some n \<Longrightarrow> strip_tags s = strip_tags (drop n s)"
proof (cases s)
  case Nil
  then show "match_tag s = Some n \<Longrightarrow> strip_tags s = strip_tags (drop n s)" by simp
next
  case (Cons c cs)
  assume m: "match_tag s = Some n"
  with match_tag_pos [OF m] obtain k where "n = Suc k"
    by (cases n) auto
  with m Cons show "strip_tags s = strip_tags (drop n s)"
    by simp
qed

lemma strip_tags_no_match:
  "(\<forall>k < length y. \<not> prefix tag_open (drop k y @ z)) \<Longrightarrow> strip_tags (y @ z) = y @ strip_tags z"
proof (induction y)
  case Nil
  then show ?case by simp
next
  case (Cons a y)
  from Cons.prems have "\<not> prefix tag_open ((a # y) @ z)"
    by force
  then have none: "match_tag (a # y @ z) = None"
    using match_tag_prefix [of "a # y @ z"] by (cases "match_tag (a # y @ z)") auto
  have "\<forall>k < length y. \<not> prefix tag_open (drop k y @ z)"
  proof (intro allI impI)
    fix k assume "k < length y"
    with Cons.prems have "\<not> prefix tag_open (drop (Suc k) (a # y) @ z)"
      by (metis Suc_less_eq length_Cons)
    then show "\<not> prefix tag_open (drop k y @ z)" by simp
  qed
  with Cons.IH none show ?case
    by simp
qed

lemma warning_text_facts:
  "warning_text \<noteq> []" "hd warning_text = 0x2A" "last warning_text = 0x2A"
  "0x3C \<notin> set warning_text" "0x0A \<notin> set warning_text" "warning_text ! 2 = 0x201A"
  "2 < length warning_text"
  by (simp_all add: warning_text_def emoji_warning_def js_def)

lemma tag_open_facts:
  "0x2A \<notin> set tag_open" "0x3C \<in> set tag_open" "tag_open \<noteq> []" "hd tag_open = 0x0A"
  by (simp_all add: tag_open_def js_def)

lemma prefix_set: "prefix p u \<Longrightarrow> set p \<subseteq> set u"
  by (auto simp: prefix_def)

text \<open>The opening of a tag lies neither inside the context and the warning nor across their end.\<close>

lemma no_tag_before_directive:
  assumes ctx: "\<not> str_includes x tag_open" and k: "k < length (x @ warning_text)"
  shows "\<not> prefix tag_open (drop k (x @ warning_text) @ tag_open @ rest)"
proof
  let ?u = "drop k (x @ warning_text)"
  assume p: "prefix tag_open (?u @ tag_open @ rest)"
  from k have u: "?u \<noteq> []" by auto
  have "last ?u = last (x @ warning_text)"
    using k by (rule last_drop)
  then have lastu: "last ?u = 0x2A"
    using warning_text_facts(1,3) by simp
  from p consider "prefix tag_open ?u" | us where "tag_open = ?u @ us"
    by (auto simp: prefix_append)
  then show False
  proof cases
    case 1
    then have "sublist tag_open (x @ warning_text)"
      by (metis prefix_imp_sublist sublist_drop sublist_order.order_trans)
    then consider "sublist tag_open x" | "sublist tag_open warning_text"
      | xs1 xs2 where "tag_open = xs1 @ xs2" "suffix xs1 x" "prefix xs2 warning_text"
        "xs1 \<noteq> []" "xs2 \<noteq> []"
      by (auto simp: sublist_append) (metis append_Nil append_Nil2 prefix_imp_sublist suffix_imp_sublist)+
    then show False
    proof cases
      case 1
      with ctx show False by (simp add: str_includes_def)
    next
      case 2
      then have "set tag_open \<subseteq> set warning_text"
        by (rule set_mono_sublist)
      with tag_open_facts(2) warning_text_facts(4) show False by blast
    next
      case 3
      from 3(3,5) have "hd xs2 = hd warning_text"
        by (metis hd_append2 prefix_def)
      with 3(1,5) warning_text_facts(2) have "0x2A \<in> set tag_open"
        by (metis hd_in_set in_set_conv_decomp_first list.set_intros(1) set_append UnCI)
      with tag_open_facts(1) show False by blast
    qed
  next
    case 2
    with u lastu have "0x2A \<in> set tag_open"
      by (metis last_in_set set_append UnCI)
    with tag_open_facts(1) show False by blast
  qed
qed

lemma tag_attributes_facts:
  assumes "0x3E \<notin> set opn" "0x3E \<notin> set sql64" "0x3E \<notin> set msg64" "0x3E \<notin> set mdl"
  shows "0x3E \<notin> set (tag_attributes opn sql64 msg64 mdl)" "tag_attributes opn sql64 msg64 mdl \<noteq> []"
  using assms by (simp_all add: tag_attributes_def js_def)

lemma strip_tags_directive:
  assumes ctx: "\<not> str_includes x tag_open"
    and gt: "0x3E \<notin> set opn" "0x3E \<notin> set sql64" "0x3E \<notin> set msg64" "0x3E \<notin> set mdl"
  shows "strip_tags (x @ warning_text @ js ''\<newline>\<newline>'' @ confirmation_tag opn sql64 msg64 mdl)
       = x @ warning_text"
proof -
  let ?attrs = "tag_attributes opn sql64 msg64 mdl"
  let ?z = "tag_open @ ?attrs @ [0x2F, 0x3E] @ []"
  have z: "js ''\<newline>\<newline>'' @ confirmation_tag opn sql64 msg64 mdl = ?z"
    by (simp add: directive_as_match)
  have m: "match_tag ?z = Some (length tag_open + length ?attrs + 2)"
    using tag_attributes_facts [OF gt] by (intro match_tag_full)
  have "strip_tags ?z = strip_tags (drop (length tag_open + length ?attrs + 2) ?z)"
    using m by (rule strip_tags_at_match)
  then have tail: "strip_tags ?z = []"
    by simp
  have "strip_tags ((x @ warning_text) @ ?z) = (x @ warning_text) @ strip_tags ?z"
  proof (rule strip_tags_no_match, intro allI impI)
    fix k assume "k < length (x @ warning_text)"
    from no_tag_before_directive [OF ctx this, of "?attrs @ [0x2F, 0x3E] @ []"]
    show "\<not> prefix tag_open (drop k (x @ warning_text) @ ?z)" .
  qed
  with tail show ?thesis
    unfolding z by simp
qed

lemma strip_warning_at_match:
  assumes "prefix warning_text s"
  shows "strip_warning warning_text s
       = strip_warning warning_text (dropWhile (\<lambda>c. c = 0x0A) (drop (length warning_text) s))"
proof (cases s)
  case Nil
  with assms warning_text_facts(1) show ?thesis by simp
next
  case (Cons c cs)
  have "drop (length warning_text - 1) cs = drop (length warning_text) (c # cs)"
    using warning_text_facts(7) by (cases "length warning_text") simp_all
  with assms Cons show ?thesis
    by simp
qed

lemma strip_warning_no_match:
  "(\<forall>k < length y. \<not> prefix w (drop k y @ z)) \<Longrightarrow> strip_warning w (y @ z) = y @ strip_warning w z"
proof (induction y)
  case Nil
  then show ?case by simp
next
  case (Cons a y)
  from Cons.prems have none: "\<not> prefix w ((a # y) @ z)"
    by force
  have "\<forall>k < length y. \<not> prefix w (drop k y @ z)"
  proof (intro allI impI)
    fix k assume "k < length y"
    with Cons.prems have "\<not> prefix w (drop (Suc k) (a # y) @ z)"
      by (metis Suc_less_eq length_Cons)
    then show "\<not> prefix w (drop k y @ z)" by simp
  qed
  with Cons.IH none show ?case
    by simp
qed

lemma warning_not_shifted:
  "\<not> prefix (drop 1 warning_text) warning_text" "\<not> prefix (drop 2 warning_text) warning_text"
  by (simp_all add: warning_text_def emoji_warning_def js_def)

lemma no_warning_before:
  assumes sign: "0x201A \<notin> set x" and k: "k < length x"
  shows "\<not> prefix warning_text (drop k x @ warning_text)"
proof
  let ?u = "drop k x"
  assume p: "prefix warning_text (?u @ warning_text)"
  from k have u: "?u \<noteq> []" by simp
  have su: "0x201A \<notin> set ?u"
    using sign by (metis in_set_dropD)
  have w2: "0x201A \<in> set (take 3 warning_text)"
    by (simp add: warning_text_def emoji_warning_def js_def)
  from p consider "prefix warning_text ?u" | us where "warning_text = ?u @ us" "prefix us warning_text"
    by (auto simp: prefix_append)
  then show False
  proof cases
    case 1
    then have "set warning_text \<subseteq> set ?u" by (rule prefix_set)
    with w2 su show False
      by (meson in_set_takeD subsetD)
  next
    case 2
    have "length ?u < 3"
    proof (rule ccontr)
      assume "\<not> length ?u < 3"
      then have "take 3 (?u @ us) = take 3 ?u"
        by simp
      then have "take 3 warning_text = take 3 ?u"
        using 2(1) by simp
      with w2 su show False
        by (metis in_set_takeD)
    qed
    moreover from u have "0 < length ?u"
      by simp
    ultimately have "length ?u = 1 \<or> length ?u = 2"
      by arith
    moreover have "us = drop (length ?u) warning_text"
      using 2(1) by (metis append_eq_conv_conj)
    ultimately show False
      using 2(2) warning_not_shifted by auto
  qed
qed

lemma strip_warning_directive:
  assumes "0x201A \<notin> set x"
  shows "strip_warning warning_text (x @ warning_text) = x"
proof -
  have "strip_warning warning_text (x @ warning_text) = x @ strip_warning warning_text warning_text"
    using no_warning_before [OF assms] by (intro strip_warning_no_match) blast
  moreover have "strip_warning warning_text warning_text = []"
    using strip_warning_at_match [of warning_text] by simp
  ultimately show ?thesis by simp
qed

text \<open>
  The \<open>cancelled\<close> handler of the agent stream, whose pattern holds the warning as
  \<open>confirmation_required\<close> writes it, removes the tag and the warning of such a directive.
\<close>

lemma remove_confirmation_directive:
  assumes "\<not> str_includes x tag_open" "0x201A \<notin> set x"
    and "0x3E \<notin> set opn" "0x3E \<notin> set sql64" "0x3E \<notin> set msg64" "0x3E \<notin> set mdl"
  shows "remove_confirmation warning_text
           (x @ warning_text @ js ''\<newline>\<newline>'' @ confirmation_tag opn sql64 msg64 mdl)
       = str_trim x"
  using assms by (simp add: remove_confirmation_def strip_tags_directive strip_warning_directive)

lemma b64_char_not_gt: "b64_char n \<noteq> 0x3E"
proof -
  have "length b64_alphabet = 64"
    by (simp add: b64_alphabet_def)
  then have "b64_char n \<in> set b64_alphabet"
    by (simp add: b64_char_def)
  moreover have "0x3E \<notin> set b64_alphabet"
    by (simp add: b64_alphabet_def js_def)
  ultimately show ?thesis by metis
qed

lemma b64_encode_no_gt: "0x3E \<notin> set (b64_encode ns)"
  by (induction ns rule: b64_encode.induct) (simp_all add: b64_char_not_gt)

lemma btoa_no_gt: "btoa s = Some b \<Longrightarrow> 0x3E \<notin> set b"
  by (auto simp: btoa_def b64_encode_no_gt split: if_splits)

lemma str_trim_sublist: "sublist (str_trim x) x"
proof -
  have "suffix (dropWhile isWhiteSpace x) x"
    by (rule suffix_dropWhile)
  moreover have "prefix (rev (dropWhile isWhiteSpace (rev y))) y" for y :: jstring
    using suffix_dropWhile [of isWhiteSpace "rev y"] by (simp add: suffix_to_prefix)
  ultimately show ?thesis
    unfolding str_trim_def
    by (meson prefix_imp_sublist sublist_order.order_trans suffix_imp_sublist)
qed

lemma confirmation_written:
  assumes "agent_event cfg now (Confirmation_required c) st = Ok (v', s')"
  shows "\<exists>sql64 msg64. btoa (conf_sql c) = Some sql64 \<and> btoa (conf_message c) = Some msg64
           \<and> messages s' \<noteq> []
           \<and> content (last (messages s'))
               = directive_context cfg st c @ warning_text @ js ''\<newline>\<newline>''
                   @ confirmation_tag (conf_operation c) sql64 msg64 (selectedModel cfg)"
  using assms
  by (cases st)
     (auto simp: Let_def directive_context_def confirmationContent_parts last_update_last
        new_assistant_def split: option.splits if_splits)

lemma example_written:
  "agent_event example_config (js ''10:00'') (Confirmation_required example_confirmation)
     (initial_vars, example_sent)
   = Ok (initial_vars,
         example_sent\<lparr>pendingOperation := pendingOperation example_awaiting,
                      messages := messages example_awaiting\<rparr>)"
proof -
  have "\<not> is_streaming example_config example_user_message"
    by (simp add: is_streaming_def example_config_def example_user_message_def js_def)
  moreover have "conf_sql example_confirmation = js ''DELETE FROM t''"
    "conf_message example_confirmation = js ''Remove rows''"
    "selectedModel example_config = js ''gemini-2.5-flash''"
    "conf_operation example_confirmation = js ''DELETE''"
    by (simp_all add: example_confirmation_def example_config_def)
  ultimately show ?thesis
    by (simp add: example_awaiting_messages example_awaiting_pending example_sent_def
        handleSendMessage_begin_def empty_session_def b64_example_sql b64_example_message Let_def)
qed

lemma example_context:
  "directive_context example_config (initial_vars, example_sent) example_confirmation
     = js ''Remove rows\<newline>\<newline>**SQL to Execute:**\<newline>```sql\<newline>DELETE FROM t\<newline>```\<newline>\<newline>''"
proof -
  have "\<not> is_streaming example_config example_user_message"
    by (simp add: is_streaming_def example_config_def example_user_message_def js_def)
  then show ?thesis
    by (simp add: directive_context_def confirmation_intro_def example_sent_def
        handleSendMessage_begin_def empty_session_def example_confirmation_def js_def)
qed

lemma example_context_clean:
  "\<not> str_includes (directive_context example_config (initial_vars, example_sent) example_confirmation) tag_open"
  unfolding example_context by code_simp

lemma example_cancelled_content:
  "str_trim (strip_warning layout_warning_text
      (directive_context example_config (initial_vars, example_sent) example_confirmation @ warning_text))
     = js ''Remove rows\<newline>\<newline>**SQL to Execute:**\<newline>```sql\<newline>DELETE FROM t\<newline>```\<newline>\<newline>''
         @ warning_text"
  unfolding example_context by code_simp

section \<open>The rewrite of the final answer\<close>

lemma update_last_in_place: "rewritten_in_place guard c ms (update_last guard (\<lambda>_. c) ms)"
  by (simp add: rewritten_in_place_def update_last_def)

text \<open>
  C6, as the code has it. In every state that an ask or agent stream reaches from its
  start, \<open>final_answer_complete\<close> leaves the accumulated buffer alone and sets the final
  answer to the event's text, whatever the final answer was before (\<open>old\<close>): the composed
  content keeps the accumulated buffer as its prefix and ends with the event's text, and
  the streaming message, when it is the last one, has exactly the composed content
  afterwards, with every other message and field as before. In the confirmation round
  the handler of \<open>final_answer_complete\<close> is empty, and the state stays as it is.
\<close>

theorem single_rewrite:
  "(ask_events cfg evs (initial_vars, s0) = (v, s) \<longrightarrow>
      (case ask_event cfg now (Final_answer_complete t) (v, s) of (v', s') \<Rightarrow>
         rewrites_final_answer_only (buildContent_ask cfg) v v' t
         \<and> rewritten_in_place (is_streaming cfg) (buildContent_ask cfg v') (messages s) (messages s')
         \<and> ask_event cfg now (Final_answer_complete t) (v\<lparr>finalAnswer := old\<rparr>, s) = (v', s')))
   \<and> (agent_events cfg evs (initial_vars, r0) = Ok (w, r) \<longrightarrow>
      (case state_of (agent_event cfg now (Final_answer_complete t) (w, r)) of (w', r') \<Rightarrow>
         rewrites_final_answer_only (buildContent_agent cfg) w w' t
         \<and> rewritten_in_place (is_streaming cfg) (buildContent_agent cfg w') (messages r) (messages r')
         \<and> agent_event cfg now (Final_answer_complete t) (w\<lparr>finalAnswer := old\<rparr>, r) = Ok (w', r')))
   \<and> confirm_event cf (Final_answer_complete t) q = q"
proof (intro conjI impI)
  assume "ask_events cfg evs (initial_vars, s0) = (v, s)"
  with ask_events_visible [of "(initial_vars, s0)" cfg evs] have "visible (accumulatedContent v)"
    by simp
  then show "case ask_event cfg now (Final_answer_complete t) (v, s) of (v', s') \<Rightarrow>
         rewrites_final_answer_only (buildContent_ask cfg) v v' t
         \<and> rewritten_in_place (is_streaming cfg) (buildContent_ask cfg v') (messages s) (messages s')
         \<and> ask_event cfg now (Final_answer_complete t) (v\<lparr>finalAnswer := old\<rparr>, s) = (v', s')"
    by (simp add: refresh_ask_def rewrite_ask update_last_in_place)
next
  assume "agent_events cfg evs (initial_vars, r0) = Ok (w, r)"
  with agent_events_visible [of "(initial_vars, r0)" cfg evs] have "visible (accumulatedContent w)"
    by simp
  then show "case state_of (agent_event cfg now (Final_answer_complete t) (w, r)) of (w', r') \<Rightarrow>
         rewrites_final_answer_only (buildContent_agent cfg) w w' t
         \<and> rewritten_in_place (is_streaming cfg) (buildContent_agent cfg w') (messages r) (messages r')
         \<and> agent_event cfg now (Final_answer_complete t) (w\<lparr>finalAnswer := old\<rparr>, r) = Ok (w', r')"
    by (simp add: refresh_agent_def rewrite_agent update_last_in_place)
next
  show "confirm_event cf (Final_answer_complete t) q = q"
    by simp
qed

lemma example_agent_run:
  "agent_events example_ask_config example_events (initial_vars, example_sent) = Ok example_agent_state"
proof -
  have "list_all (\<lambda>x. growing_agent (snd x)) example_events"
    by (simp add: example_events_def)
  with agent_events_inv [OF conjunct2 [OF inv_start [OF example_start(1)]]]
  obtain st' where "agent_events example_ask_config example_events (initial_vars, example_sent) = Ok st'"
    by blast
  then show ?thesis
    by (simp add: example_agent_state_def)
qed

lemma example_ask_contents:
  "content (last (messages (snd example_ask_state)))
     = js ''\<newline>\<newline>**Executed SQL Query:**\<newline>```sql\<newline>SELECT 1\<newline>```\<newline>\<newline>\<newline>The ''"
  "content (last (messages (snd (ask_event example_ask_config (js ''10:02'')
       (Final_answer_complete (js ''The answer is 1.'')) example_ask_state))))
     = js ''\<newline>\<newline>**Executed SQL Query:**\<newline>```sql\<newline>SELECT 1\<newline>```\<newline>\<newline>\<newline>The answer is 1.''"
  by code_simp+

lemma example_agent_contents:
  "content (last (messages (snd example_agent_state)))
     = js ''\<newline>\<newline>**Executed SQL:**\<newline>```sql\<newline>SELECT 1\<newline>```\<newline>\<newline>\<newline>The ''"
  "content (last (messages (snd (state_of (agent_event example_ask_config (js ''10:02'')
       (Final_answer_complete (js ''The answer is 1.'')) example_agent_state)))))
     = js ''\<newline>\<newline>**Executed SQL:**\<newline>```sql\<newline>SELECT 1\<newline>```\<newline>\<newline>\<newline>The answer is 1.''"
  by code_simp+

theorem single_rewrite_witness:
  "(case ask_event example_ask_config (js ''10:02'') (Final_answer_complete (js ''The answer is 1.''))
           example_ask_state of
      (v', s') \<Rightarrow>
        rewrites_final_answer_only (buildContent_ask example_ask_config) (fst example_ask_state) v'
          (js ''The answer is 1.'')
        \<and> rewritten_in_place (is_streaming example_ask_config) (buildContent_ask example_ask_config v')
            (messages (snd example_ask_state)) (messages s'))
   \<and> content (last (messages (snd example_ask_state)))
       = js ''\<newline>\<newline>**Executed SQL Query:**\<newline>```sql\<newline>SELECT 1\<newline>```\<newline>\<newline>\<newline>The ''
   \<and> content (last (messages (snd (ask_event example_ask_config (js ''10:02'')
         (Final_answer_complete (js ''The answer is 1.'')) example_ask_state))))
       = js ''\<newline>\<newline>**Executed SQL Query:**\<newline>```sql\<newline>SELECT 1\<newline>```\<newline>\<newline>\<newline>The answer is 1.''
   \<and> (case state_of (agent_event example_ask_config (js ''10:02'')
                       (Final_answer_complete (js ''The answer is 1.'')) example_agent_state) of
      (w', r') \<Rightarrow>
        rewrites_final_answer_only (buildContent_agent example_ask_config) (fst example_agent_state) w'
          (js ''The answer is 1.'')
        \<and> rewritten_in_place (is_streaming example_ask_config) (buildContent_agent example_ask_config w')
            (messages (snd example_agent_state)) (messages r'))
   \<and> content (last (messages (snd example_agent_state)))
       = js ''\<newline>\<newline>**Executed SQL:**\<newline>```sql\<newline>SELECT 1\<newline>```\<newline>\<newline>\<newline>The ''
   \<and> content (last (messages (snd (state_of (agent_event example_ask_config (js ''10:02'')
         (Final_answer_complete (js ''The answer is 1.'')) example_agent_state)))))
       = js ''\<newline>\<newline>**Executed SQL:**\<newline>```sql\<newline>SELECT 1\<newline>```\<newline>\<newline>\<newline>The answer is 1.''"
proof -
  have a: "ask_events example_ask_config example_events (initial_vars, example_sent)
             = (fst example_ask_state, snd example_ask_state)"
    by (simp add: example_ask_state_def)
  have b: "agent_events example_ask_config example_events (initial_vars, example_sent)
             = Ok (fst example_agent_state, snd example_agent_state)"
    by (simp add: example_agent_run)
  from single_rewrite [where cfg = example_ask_config and evs = example_events
      and ?s0.0 = example_sent and v = "fst example_ask_state" and s = "snd example_ask_state"
      and now = "js ''10:02''" and t = "js ''The answer is 1.''" and old = "[]"
      and ?r0.0 = example_sent and w = "fst example_agent_state" and r = "snd example_agent_state"] a b
  have "(case ask_event example_ask_config (js ''10:02'') (Final_answer_complete (js ''The answer is 1.''))
           example_ask_state of
      (v', s') \<Rightarrow>
        rewrites_final_answer_only (buildContent_ask example_ask_config) (fst example_ask_state) v'
          (js ''The answer is 1.'')
        \<and> rewritten_in_place (is_streaming example_ask_config) (buildContent_ask example_ask_config v')
            (messages (snd example_ask_state)) (messages s'))
   \<and> (case state_of (agent_event example_ask_config (js ''10:02'')
                       (Final_answer_complete (js ''The answer is 1.'')) example_agent_state) of
      (w', r') \<Rightarrow>
        rewrites_final_answer_only (buildContent_agent example_ask_config) (fst example_agent_state) w'
          (js ''The answer is 1.'')
        \<and> rewritten_in_place (is_streaming example_ask_config) (buildContent_agent example_ask_config w')
            (messages (snd example_agent_state)) (messages r'))"
    by (auto split: prod.splits)
  then show ?thesis
    by (intro conjI example_ask_contents example_agent_contents) (erule conjunct1, erule conjunct2)
qed

lemma example_executed_content:
  "content (last (messages (onConfirmAction_execute example_round_config example_awaiting)))
     = example_executed_text"
proof -
  have g: "0x3E \<notin> set (conf_operation example_confirmation)"
    "0x3E \<notin> set (selectedModel example_config)"
    by (simp_all add: example_confirmation_def example_config_def js_def)
  from confirmation_written [OF example_written] obtain sql64 msg64 where
    b: "btoa (conf_sql example_confirmation) = Some sql64"
       "btoa (conf_message example_confirmation) = Some msg64"
    and cont: "content (last (messages example_awaiting))
                 = directive_context example_config (initial_vars, example_sent) example_confirmation
                     @ warning_text @ js ''\<newline>\<newline>''
                     @ confirmation_tag (conf_operation example_confirmation) sql64 msg64
                         (selectedModel example_config)"
    by auto
  have "strip_tags (content (last (messages example_awaiting)))
          = directive_context example_config (initial_vars, example_sent) example_confirmation
              @ warning_text"
    unfolding cont
    using example_context_clean g btoa_no_gt [OF b(1)] btoa_no_gt [OF b(2)]
    by (intro strip_tags_directive)
  then show ?thesis
    using example_awaiting_last_assistant
    by (simp add: onConfirmAction_execute_def update_last_def remove_confirmation_def
        example_cancelled_content example_executed_text_def)
qed

lemma example_summary_chunk:
  "append_summary_chunk (js ''The '') example_executed_text
     = example_executed_text @ summary_header @ js ''\<newline>The ''"
  by code_simp

lemma example_round_content:
  "content (last (messages example_round_state))
     = example_executed_text @ summary_header @ js ''\<newline>The ''"
proof -
  have "messages (onConfirmAction_execute example_round_config example_awaiting) \<noteq> []"
    using example_awaiting_last_assistant by (simp add: onConfirmAction_execute_def update_last_def)
  moreover have "is_assistant (last (messages (onConfirmAction_execute example_round_config example_awaiting)))"
    using example_awaiting_last_assistant
    by (simp add: onConfirmAction_execute_def update_last_def is_assistant_def)
  ultimately show ?thesis
    by (simp add: example_round_state_def update_last_def example_executed_content example_summary_chunk)
qed

text \<open>
  The claim C6 fails in the confirmation round: after a chunk \<open>The\<close> of the summary,
  \<open>final_answer_complete\<close> with the full text leaves the message as the chunk built it; the
  region after the header is still the chunk and the message does not end with the event's
  text.
\<close>

theorem round_keeps_chunks_counterexample:
  "suffix (summary_header @ js ''\<newline>The '')
     (content (last (messages (confirm_event example_round_config
        (Final_answer_complete (js ''The answer is 1.'')) example_round_state))))
   \<and> \<not> suffix (js ''The answer is 1.'')
     (content (last (messages (confirm_event example_round_config
        (Final_answer_complete (js ''The answer is 1.'')) example_round_state))))"
proof -
  let ?c = "content (last (messages example_round_state))"
  have "suffix (summary_header @ js ''\<newline>The '') ?c"
    unfolding example_round_content by (intro suffixI [where zs = "example_executed_text"]) simp
  moreover have "\<not> suffix (js ''The answer is 1.'') ?c"
    unfolding example_round_content by code_simp
  ultimately show ?thesis
    by simp
qed

section \<open>Applying an event twice\<close>

text \<open>
  C5, as the code has it. Applying \<open>final_answer_complete\<close> a second time changes
  nothing, in ask mode and in agent mode, because it replaces the final answer. In the
  confirmation round, a second \<open>sql_query\<close> or \<open>chart_config\<close> finds its text already in
  the message and appends nothing, and \<open>final_answer_complete\<close> does nothing at all.
  (The ask and agent handlers of \<open>sql_query\<close> and \<open>chart_config\<close> append without
  looking.)
\<close>

theorem rewrite_and_round_idempotent:
  "ask_event cfg now' (Final_answer_complete t) (ask_event cfg now (Final_answer_complete t) st)
     = ask_event cfg now (Final_answer_complete t) st
   \<and> (\<exists>st'. agent_event cfg now (Final_answer_complete t) st = Ok st'
        \<and> agent_event cfg now' (Final_answer_complete t) st' = Ok st')
   \<and> confirm_event cf (Sql_query q) (confirm_event cf (Sql_query q) s) = confirm_event cf (Sql_query q) s
   \<and> confirm_event cf (Chart_config j) (confirm_event cf (Chart_config j) s)
       = confirm_event cf (Chart_config j) s
   \<and> confirm_event cf (Final_answer_complete t) (confirm_event cf (Final_answer_complete t) s)
       = confirm_event cf (Final_answer_complete t) s"
proof -
  obtain v s1 where st: "st = (v, s1)" by (cases st)
  have a: "ask_event cfg now' (Final_answer_complete t) (ask_event cfg now (Final_answer_complete t) st)
     = ask_event cfg now (Final_answer_complete t) st"
    by (simp add: st refresh_ask_def update_last_idem)
  have b: "\<exists>st'. agent_event cfg now (Final_answer_complete t) st = Ok st'
        \<and> agent_event cfg now' (Final_answer_complete t) st' = Ok st'"
    by (simp add: st refresh_agent_def update_last_idem)
  have c: "confirm_event cf (Sql_query q) (confirm_event cf (Sql_query q) s) = confirm_event cf (Sql_query q) s"
    by (simp add: update_last_idem append_unless_included_idem)
  have d: "confirm_event cf (Chart_config j) (confirm_event cf (Chart_config j) s)
       = confirm_event cf (Chart_config j) s"
    by (simp add: Let_def update_last_idem append_unless_included_idem)
  show ?thesis
    using a b c d by simp
qed

theorem rewrite_and_round_idempotent_witness:
  "ask_event example_ask_config (js ''10:03'') (Final_answer_complete (js ''The answer is 1.''))
       (ask_event example_ask_config (js ''10:02'') (Final_answer_complete (js ''The answer is 1.''))
          example_ask_state)
     = ask_event example_ask_config (js ''10:02'') (Final_answer_complete (js ''The answer is 1.''))
         example_ask_state
   \<and> confirm_event example_round_config (Sql_query (js ''SELECT 1''))
         (confirm_event example_round_config (Sql_query (js ''SELECT 1'')) example_awaiting)
       = confirm_event example_round_config (Sql_query (js ''SELECT 1'')) example_awaiting"
  using rewrite_and_round_idempotent [where cfg = example_ask_config and now' = "js ''10:03''"
      and t = "js ''The answer is 1.''" and now = "js ''10:02''" and st = example_ask_state
      and cf = example_round_config and q = "js ''SELECT 1''" and s = example_awaiting]
  by blast

text \<open>
  The claim C5 fails for \<open>sql_query\<close> in ask mode: the second application appends the
  query block again, and the message shows two blocks where one application shows one.
\<close>

theorem repeated_sql_query_counterexample:
  "content (last (messages (snd
      (ask_event example_ask_config (js ''10:01'') (Sql_query (js ''SELECT 1''))
        (ask_event example_ask_config (js ''10:01'') (Sql_query (js ''SELECT 1''))
          (ask_event example_ask_config (js ''10:00'') (Ai_response (js ''Let me check''))
            (initial_vars, example_sent)))))))
   \<noteq> content (last (messages (snd
      (ask_event example_ask_config (js ''10:01'') (Sql_query (js ''SELECT 1''))
        (ask_event example_ask_config (js ''10:00'') (Ai_response (js ''Let me check''))
          (initial_vars, example_sent))))))"
  by (simp add: example_ask_config_def example_sent_def
      handleSendMessage_begin_def initial_vars_def buildContent_ask_def update_last_def
      new_assistant_def is_streaming_def example_user_message_def empty_session_def
      refresh_ask_def Let_def sql_query_block_ask_def js_def)

section \<open>Stopping a stream\<close>

lemma ask_event_signals:
  "abortedSignals (snd (ask_event cfg now e st)) = abortedSignals (snd st)
   \<and> abortControllerRef (snd (ask_event cfg now e st)) = abortControllerRef (snd st)"
  by (cases st; cases e) (auto simp: refresh_ask_def Let_def split: option.splits)

lemma agent_event_signals:
  "abortedSignals (snd (state_of (agent_event cfg now e st))) = abortedSignals (snd st)
   \<and> abortControllerRef (snd (state_of (agent_event cfg now e st))) = abortControllerRef (snd st)"
  by (cases st; cases e) (auto simp: refresh_agent_def Let_def split: option.splits list.splits)

lemma keeps_signals_ask: "keeps_signals (\<lambda>e st. Ok (ask_event cfg now e st))"
  by (simp add: keeps_signals_def ask_event_signals)

lemma keeps_signals_agent: "keeps_signals (agent_event cfg now)"
  by (simp add: keeps_signals_def agent_event_signals)

lemma keeps_signalsD:
  assumes "keeps_signals h"
  shows "abortedSignals (snd (state_of (h e st))) = abortedSignals (snd st)"
    and "abortControllerRef (snd (state_of (h e st))) = abortControllerRef (snd st)"
  using assms unfolding keeps_signals_def by blast+

lemma process_lines_signals:
  assumes "keeps_signals h"
  shows "abortedSignals (snd (state_of (process_lines parse h ls st))) = abortedSignals (snd st)
       \<and> abortControllerRef (snd (state_of (process_lines parse h ls st))) = abortControllerRef (snd st)"
proof (induction ls arbitrary: st)
  case Nil
  then show ?case by simp
next
  case (Cons l ls)
  show ?case
  proof (cases "str_startsWith l (js ''data: '')")
    case False
    then show ?thesis using Cons.IH by simp
  next
    case True
    show ?thesis
    proof (cases "parse (drop 6 l)")
      case None
      with True show ?thesis by simp
    next
      case (Some d)
      note k = keeps_signalsD [OF assms, of d st]
      show ?thesis
      proof (cases "h d st")
        case (Ok st')
        with k Cons.IH [of st'] True Some show ?thesis by simp
      next
        case (Thrown x st')
        with k True Some show ?thesis by simp
      qed
    qed
  qed
qed

lemma process_chunk_aborted:
  assumes "keeps_signals h"
  shows "signal_aborted sig (snd (state_of (process_chunk parse h chunk st))) = signal_aborted sig (snd st)"
  using process_lines_signals [OF assms, where parse = parse and ls = "str_split chunk" and st = st]
  by (simp add: process_chunk_def signal_aborted_def)

lemma process_chunk_ref:
  assumes "keeps_signals h"
  shows "abortControllerRef (snd (state_of (process_chunk parse h chunk st))) = abortControllerRef (snd st)"
  using process_lines_signals [OF assms, where parse = parse and ls = "str_split chunk" and st = st]
  by (simp add: process_chunk_def)

lemma stop_aborts:
  "signal_aborted sig s \<or> abortControllerRef s = Some sig \<Longrightarrow> signal_aborted sig (handleStopGeneration s)"
  by (auto simp: handleStopGeneration_def signal_aborted_def split: option.splits)

lemma await_read_aborted:
  assumes keep: "\<And>now. keeps_signals (h now)" and ab: "signal_aborted sig (snd st)"
  shows "await_read sig parse h (Read r # post) st = await_read sig parse h [Read r] st"
proof (cases r)
  case (Chunk now chunk)
  from process_chunk_aborted [OF keep [of now], where sig = sig and parse = parse
      and chunk = chunk and st = st] ab
  have "signal_aborted sig (snd (state_of (process_chunk parse (h now) chunk st)))"
    by simp
  then show ?thesis
    using Chunk by (cases "process_chunk parse (h now) chunk st") (auto split: prod.splits)
next
  case End_of_stream
  then show ?thesis by simp
next
  case Read_rejected
  then show ?thesis by (cases st) simp
qed

lemma await_read_after_stop:
  assumes keep: "\<And>now. keeps_signals (h now)"
    and inv: "signal_aborted sig (snd st) \<or> abortControllerRef (snd st) = Some sig"
  shows "await_read sig parse h (pre @ Stop # Read r # post) st
       = await_read sig parse h (pre @ [Stop, Read r]) st"
  using inv
proof (induction pre arbitrary: st)
  case Nil
  obtain v s where st: "st = (v, s)" by (cases st)
  from Nil st have "signal_aborted sig (snd (v, handleStopGeneration s))"
    by (simp add: stop_aborts)
  from await_read_aborted [OF keep this] show ?case
    by (simp add: st)
next
  case (Cons t pre)
  obtain v s where st: "st = (v, s)" by (cases st)
  show ?case
  proof (cases t)
    case Stop
    from Cons.prems st have "signal_aborted sig (snd (v, handleStopGeneration s))
        \<or> abortControllerRef (snd (v, handleStopGeneration s)) = Some sig"
      by (simp add: stop_aborts)
    from Cons.IH [OF this] show ?thesis
      by (simp add: Stop st)
  next
    case (Read r')
    show ?thesis
    proof (cases r')
      case (Chunk now chunk)
      show ?thesis
      proof (cases "process_chunk parse (h now) chunk st")
        case (Ok st')
        from process_chunk_aborted [OF keep [of now], where sig = sig and parse = parse
            and chunk = chunk and st = st]
          process_chunk_ref [OF keep [of now], where parse = parse and chunk = chunk and st = st]
          Ok Cons.prems
        have "signal_aborted sig (snd st') \<or> abortControllerRef (snd st') = Some sig"
          by simp
        from Cons.IH [OF this] show ?thesis
          by (auto simp: Read Chunk Ok split: prod.splits)
      next
        case (Thrown x st')
        then show ?thesis
          by (simp add: Read Chunk split: prod.splits)
      qed
    next
      case End_of_stream
      then show ?thesis by (simp add: Read)
    next
      case Read_rejected
      then show ?thesis by (simp add: Read st)
    qed
  qed
qed

lemma await_read_stop_then_no_chunk:
  assumes keep: "\<And>now. keeps_signals (h now)"
    and inv: "signal_aborted sig (snd st) \<or> abortControllerRef (snd st) = Some sig"
    and r: "\<not> is_chunk r"
  shows "await_read sig parse h (pre @ Stop # Read r # post) st
       = (finished (fst (await_read sig parse h (pre @ [Stop]) st)),
          snd (await_read sig parse h (pre @ [Stop]) st))"
  using inv
proof (induction pre arbitrary: st)
  case Nil
  obtain v s where st: "st = (v, s)" by (cases st)
  from Nil st have "signal_aborted sig (handleStopGeneration s)"
    by (simp add: stop_aborts)
  then show ?case
    using r by (cases r) (simp_all add: st)
next
  case (Cons t pre)
  obtain v s where st: "st = (v, s)" by (cases st)
  show ?case
  proof (cases t)
    case Stop
    from Cons.prems st have "signal_aborted sig (snd (v, handleStopGeneration s))
        \<or> abortControllerRef (snd (v, handleStopGeneration s)) = Some sig"
      by (simp add: stop_aborts)
    from Cons.IH [OF this] show ?thesis
      by (simp add: Stop st)
  next
    case (Read r')
    show ?thesis
    proof (cases r')
      case (Chunk now chunk)
      show ?thesis
      proof (cases "process_chunk parse (h now) chunk st")
        case (Ok st')
        from process_chunk_aborted [OF keep [of now], where sig = sig and parse = parse
            and chunk = chunk and st = st]
          process_chunk_ref [OF keep [of now], where parse = parse and chunk = chunk and st = st]
          Ok Cons.prems
        have "signal_aborted sig (snd st') \<or> abortControllerRef (snd st') = Some sig"
          by simp
        from Cons.IH [OF this] show ?thesis
          by (auto simp: Read Chunk Ok split: prod.splits)
      next
        case (Thrown x st')
        then show ?thesis
          by (simp add: Read Chunk split: prod.splits)
      qed
    next
      case End_of_stream
      then show ?thesis by (simp add: Read)
    next
      case Read_rejected
      then show ?thesis by (simp add: Read st)
    qed
  qed
qed

lemma read_loop_after_stop:
  assumes keep: "\<And>now. keeps_signals (h now)"
    and inv: "abortControllerRef (snd st) = Some sig"
  shows "read_loop sig parse h (pre @ Stop # Read r # post) st
       = read_loop sig parse h (pre @ [Stop, Read r]) st"
    and "\<not> is_chunk r \<Longrightarrow>
         read_loop sig parse h (pre @ Stop # Read r # post) st
       = (finished (fst (read_loop sig parse h (pre @ [Stop]) st)),
          snd (read_loop sig parse h (pre @ [Stop]) st))"
  using await_read_after_stop [where h = h and sig = sig and st = st and parse = parse and pre = pre
      and r = r and post = post, OF keep]
    await_read_stop_then_no_chunk [where h = h and sig = sig and st = st and parse = parse
      and pre = pre and r = r and post = post, OF keep] inv
  by (simp_all add: read_loop_def)

lemma confirm_event_ref [simp]: "abortControllerRef (confirm_event cf e s) = abortControllerRef s"
  by (cases e) (auto simp: Let_def loadConversation_begin_def split: option.splits)

lemma confirm_lines_ref:
  "abortControllerRef (state_of (process_lines parse (\<lambda>e s. Ok (confirm_event cf e s)) ls s))
     = abortControllerRef s"
  by (induction ls arbitrary: s) (auto split: option.splits)

lemma confirm_stop_ignored:
  "abortControllerRef s = None \<Longrightarrow>
   confirm_read_loop None parse cf (pre @ Stop # post) s = confirm_read_loop None parse cf (pre @ post) s"
proof (induction pre arbitrary: s)
  case Nil
  then show ?case by (simp add: handleStopGeneration_def)
next
  case (Cons t pre)
  show ?case
  proof (cases t)
    case Stop
    with Cons show ?thesis by (simp add: handleStopGeneration_def)
  next
    case (Read r)
    show ?thesis
    proof (cases r)
      case (Chunk now chunk)
      show ?thesis
      proof (cases "process_chunk parse (\<lambda>e s. Ok (confirm_event cf e s)) chunk s")
        case (Ok s')
        with confirm_lines_ref [where parse = parse and cf = cf and ls = "str_split chunk" and s = s]
          Cons.prems
        have "abortControllerRef s' = None"
          by (simp add: process_chunk_def)
        from Cons.IH [OF this] show ?thesis
          by (simp add: Read Chunk Ok)
      next
        case (Thrown x s')
        then show ?thesis by (simp add: Read Chunk)
      qed
    qed (simp_all add: Read)
  qed
qed

lemma handleSendMessage_end_returned:
  "messages (handleSendMessage_end mid now message_of None s) = messages s"
  by (simp add: handleSendMessage_end_def)

text \<open>
  C1, as the code has it. Take a stream of \<open>handleSendMessage\<close> whose controller is the
  stored one. After a stop, whatever follows the read that was pending at that moment is
  never handled: the loop looks at its signal before it reads again and returns. When that
  pending read is rejected or reports the end, as happens to the body of an aborted fetch,
  the state is exactly the state at the stop and the loop returns without an error. When
  the pending read still resolves with a chunk, that chunk is handled; the signal is not
  looked at between a read and its chunk. The stream of the confirmation round has no
  signal, and while no controller is stored a stop does not change what it does.
\<close>

theorem stop_freezes_primary_stream:
  assumes "abortControllerRef (snd st) = Some sig"
  shows "sendAskQueryStream sig parse cfg (pre @ Stop # Read r # post) st
           = sendAskQueryStream sig parse cfg (pre @ [Stop, Read r]) st
       \<and> sendAgentQueryStream sig parse cfg (pre @ Stop # Read r # post) st
           = sendAgentQueryStream sig parse cfg (pre @ [Stop, Read r]) st
       \<and> (\<not> is_chunk r \<longrightarrow>
            sendAskQueryStream sig parse cfg (pre @ Stop # Read r # post) st
              = (finished (fst (sendAskQueryStream sig parse cfg (pre @ [Stop]) st)),
                 snd (sendAskQueryStream sig parse cfg (pre @ [Stop]) st))
          \<and> sendAgentQueryStream sig parse cfg (pre @ Stop # Read r # post) st
              = (finished (fst (sendAgentQueryStream sig parse cfg (pre @ [Stop]) st)),
                 snd (sendAgentQueryStream sig parse cfg (pre @ [Stop]) st)))
       \<and> (abortControllerRef s = None \<longrightarrow>
            confirmAgentOperationStream parse cf (pre @ Stop # post) s
              = confirmAgentOperationStream parse cf (pre @ post) s)"
  unfolding sendAskQueryStream_def sendAgentQueryStream_def confirmAgentOperationStream_def
  using read_loop_after_stop [where h = "\<lambda>now e st. Ok (ask_event cfg now e st)" and parse = parse
      and pre = pre and r = r and post = post, OF keeps_signals_ask assms]
    read_loop_after_stop [where h = "agent_event cfg" and parse = parse
      and pre = pre and r = r and post = post, OF keeps_signals_agent assms]
    confirm_stop_ignored [where s = s and parse = parse and cf = cf and pre = pre and post = post]
  by simp

lemma example_sent_controller: "abortControllerRef example_sent = Some 0"
  by (simp add: example_sent_def handleSendMessage_begin_def empty_session_def)

theorem stop_freezes_primary_stream_witness:
  "abortControllerRef (snd (initial_vars, example_sent)) = Some 0
   \<and> \<not> is_chunk Read_rejected
   \<and> abortControllerRef example_awaiting = None
   \<and> sendAskQueryStream 0 parse_event example_ask_config
         (example_stopped @ Stop # Read Read_rejected # [Read (Chunk (js ''10:01'') example_sql_line)])
         (initial_vars, example_sent)
       = (finished (fst (sendAskQueryStream 0 parse_event example_ask_config
                      (example_stopped @ [Stop]) (initial_vars, example_sent))),
          snd (sendAskQueryStream 0 parse_event example_ask_config
                 (example_stopped @ [Stop]) (initial_vars, example_sent)))
   \<and> confirmAgentOperationStream parse_event example_round_config
         (example_stopped @ Stop # [Read (Chunk (js ''10:01'') example_sql_line)]) example_awaiting
       = confirmAgentOperationStream parse_event example_round_config
           (example_stopped @ [Read (Chunk (js ''10:01'') example_sql_line)]) example_awaiting"
proof -
  have a: "abortControllerRef (snd (initial_vars, example_sent)) = Some 0"
    by (simp add: example_sent_controller)
  have b: "abortControllerRef example_awaiting = None"
    unfolding example_awaiting_def by (rule handleSendMessage_end_clears_controller)
  have c: "\<not> is_chunk Read_rejected"
    by simp
  note t = stop_freezes_primary_stream [OF a, where parse = parse_event and cfg = example_ask_config
      and pre = example_stopped and r = Read_rejected
      and post = "[Read (Chunk (js ''10:01'') example_sql_line)]"
      and cf = example_round_config and s = example_awaiting]
  from t a b c show ?thesis
    by blast
qed

text \<open>
  The claim C1 fails for the read in flight: the stream has delivered \<open>ai_response\<close> and
  is stopped, the pending read then resolves with a \<open>sql_query\<close> line, and the message
  that was frozen empty now shows the query block.
\<close>

theorem in_flight_chunk_counterexample:
  "content (last (messages (snd (snd (sendAskQueryStream 0 parse_event example_ask_config
      example_stopped (initial_vars, example_sent)))))) = []
   \<and> content (last (messages (snd (snd (sendAskQueryStream 0 parse_event example_ask_config
      (example_stopped @ [Read (Chunk (js ''10:01'') example_sql_line)]) (initial_vars, example_sent))))))
     = sql_query_block_ask (js ''SELECT 1'')"
  by code_simp

section \<open>Rejecting a confirmation\<close>

text \<open>
  C7, as the code has it. Cancel always clears the pending operation and sends one request,
  the plain agent request with the text \<open>Cancel\<close>, never the confirm-and-execute request.
  It touches the messages only when that request is answered \<open>ok\<close>. Then, for a directive
  as the agent's \<open>confirmation_required\<close> handler wrote it into an assistant message,
  where the text before the warning holds no opening of a confirmation tag and neither the
  operation nor the model holds \<^verbatim>\<open>>\<close>, the first replacement removes exactly the tag and
  the two line feeds before it, and the message is left with what the replacement of the
  warning pattern of \<open>main-layout.tsx\<close> and \<open>trim\<close> make of the text that stood before the
  tag.
\<close>

theorem rejection_round:
  assumes written: "agent_event cfg now (Confirmation_required c) st = Ok (v', s')"
    and same: "messages s2 = messages s'"
    and asst: "is_assistant (last (messages s'))"
    and ctx: "\<not> str_includes (directive_context cfg st c) tag_open"
    and gt: "0x3E \<notin> set (conf_operation c)" "0x3E \<notin> set (selectedModel cfg)"
  shows "pendingOperation (onConfirmAction_cancel res s2) = None
       \<and> requests (onConfirmAction_cancel res s2) = requests s2 @ [Post_agent (js ''Cancel'')]
       \<and> (res \<noteq> Fetch_ok \<longrightarrow> messages (onConfirmAction_cancel res s2) = messages s2)
       \<and> strip_tags (content (last (messages s2))) = directive_context cfg st c @ warning_text
       \<and> messages (onConfirmAction_cancel Fetch_ok s2)
           = butlast (messages s2)
               @ [(last (messages s2))
                    \<lparr>content := str_trim (strip_warning layout_warning_text
                                           (directive_context cfg st c @ warning_text))\<rparr>]"
proof -
  let ?x = "directive_context cfg st c"
  from confirmation_written [OF written] obtain sql64 msg64 where
    b: "btoa (conf_sql c) = Some sql64" "btoa (conf_message c) = Some msg64"
    and ne: "messages s' \<noteq> []"
    and cont: "content (last (messages s'))
                 = ?x @ warning_text @ js ''\<newline>\<newline>''
                     @ confirmation_tag (conf_operation c) sql64 msg64 (selectedModel cfg)"
    by blast
  have 4: "strip_tags (content (last (messages s'))) = ?x @ warning_text"
    unfolding cont
    using ctx gt btoa_no_gt [OF b(1)] btoa_no_gt [OF b(2)] by (intro strip_tags_directive)
  then have 5: "messages (onConfirmAction_cancel Fetch_ok s2)
           = butlast (messages s2)
               @ [(last (messages s2))
                    \<lparr>content := str_trim (strip_warning layout_warning_text (?x @ warning_text))\<rparr>]"
    using same ne asst
    by (simp add: onConfirmAction_cancel_def Let_def update_last_def remove_confirmation_def)
  show ?thesis
    using 4 5 same by (simp add: onConfirmAction_cancel_def Let_def)
qed

lemma example_cancelled_no_tag:
  "\<not> str_includes
      (js ''Remove rows\<newline>\<newline>**SQL to Execute:**\<newline>```sql\<newline>DELETE FROM t\<newline>```\<newline>\<newline>''
         @ warning_text) (js ''<confirmation'')"
  by code_simp

theorem rejection_round_witness:
  "is_assistant (last (messages example_awaiting))
   \<and> 0x3E \<notin> set (conf_operation example_confirmation)
   \<and> 0x3E \<notin> set (selectedModel example_config)
   \<and> pendingOperation (onConfirmAction_cancel Fetch_ok example_awaiting) = None
   \<and> requests (onConfirmAction_cancel Fetch_ok example_awaiting)
       = requests example_awaiting @ [Post_agent (js ''Cancel'')]
   \<and> content (last (messages (onConfirmAction_cancel Fetch_ok example_awaiting)))
       = js ''Remove rows\<newline>\<newline>**SQL to Execute:**\<newline>```sql\<newline>DELETE FROM t\<newline>```\<newline>\<newline>''
           @ warning_text
   \<and> \<not> str_includes (content (last (messages (onConfirmAction_cancel Fetch_ok example_awaiting))))
         (js ''<confirmation'')"
proof -
  have a: "is_assistant (last (messages example_awaiting))"
    using example_awaiting_last_assistant by simp
  have g: "0x3E \<notin> set (conf_operation example_confirmation)"
    "0x3E \<notin> set (selectedModel example_config)"
    by (simp_all add: example_confirmation_def example_config_def js_def)
  have a': "is_assistant (last (messages (example_sent\<lparr>pendingOperation := pendingOperation example_awaiting,
                      messages := messages example_awaiting\<rparr>)))"
    using a by simp
  from rejection_round [OF example_written _ a' example_context_clean g,
      where ?s2.0 = example_awaiting and res = Fetch_ok]
  show ?thesis
    using a g by (simp add: example_cancelled_content example_cancelled_no_tag)
qed

text \<open>
  The claim C7 fails when the cancel request is not answered \<open>ok\<close>: the messages are as
  before, and the last one still holds the tag and the warning.
\<close>

theorem failed_cancel_counterexample:
  "messages (onConfirmAction_cancel Fetch_not_ok example_awaiting) = messages example_awaiting
   \<and> str_includes (content (last (messages example_awaiting))) (js ''<confirmation'')
   \<and> str_includes (content (last (messages example_awaiting))) warning_text"
proof -
  have "messages (onConfirmAction_cancel Fetch_not_ok example_awaiting) = messages example_awaiting"
    by (simp add: onConfirmAction_cancel_def)
  moreover have "content (last (messages example_awaiting))
      = confirmationContent (js ''gemini-2.5-flash'') example_confirmation
          (js ''REVMRVRFIEZST00gdA=='') (js ''UmVtb3ZlIHJvd3M='')"
    by (simp add: example_awaiting_messages new_assistant_def)
  moreover have "str_includes (confirmationContent (js ''gemini-2.5-flash'') example_confirmation
          (js ''REVMRVRFIEZST00gdA=='') (js ''UmVtb3ZlIHJvd3M='')) (js ''<confirmation'')"
    by code_simp
  moreover have "str_includes (confirmationContent (js ''gemini-2.5-flash'') example_confirmation
          (js ''REVMRVRFIEZST00gdA=='') (js ''UmVtb3ZlIHJvd3M='')) warning_text"
    by code_simp
  ultimately show ?thesis
    by simp
qed

end
